theory Spec2Isabelle
  imports
    Complex_Main
    "HOL-Library.AList"
    "HOL-Library.List_Lexorder"
    "HOL-Library.Char_ord"
    "HOL-Library.Multiset"
begin

section \<open>Python values and built-ins used by the code\<close>

text \<open>
  Exceptions are values: every function of the source that can raise returns
  \<open>py_error + 'a\<close>, with \<open>Inl\<close> for the exception.  \<open>OtherError\<close> stands for an
  exception of a collaborator that is not part of the repository (the vectorizer service,
  the index handler passed to the processor); \<open>BaseIndexNotEmpty\<close> is the
  \<open>Exception\<close> that \<open>load_base_idx\<close> and \<open>load_empty\<close> raise, and \<open>Corrupt\<close> the one
  faiss raises when inverted lists of different shapes are merged.
\<close>

datatype py_error =
    IndexError | ValueError | AttributeError | RuntimeError | AssertionError
  | BaseIndexNotEmpty | Corrupt | OtherError

text \<open>
  Strings are compared as Python compares them: lexicographically by code point, which is
  the order of \<open>char list\<close> given by the list and character orders of the library.
  Distances (numpy \<open>float32\<close>, Python \<open>float\<close>) are modelled by rationals: only their
  order and the constants \<open>0.01\<close> and \<open>0.1\<close> are used by the code.  Python's
  \<open>str\<close> on a float is a library function; the functions below take it as the
  parameter \<open>str_float\<close>.  \<open>pickle.dumps\<close> is the parameter \<open>phash\<close>.
\<close>

definition digit_char :: "nat \<Rightarrow> char" where
  "digit_char d = ''0123456789'' ! d"

fun str_nat :: "nat \<Rightarrow> string" where
  "str_nat n = (if n < 10 then [digit_char n] else str_nat (n div 10) @ [digit_char (n mod 10)])"

declare str_nat.simps [simp del]

definition str_int :: "int \<Rightarrow> string" where
  \<comment> \<open>\<open>str(i)\<close> for an integer: decimal digits, a leading minus sign when negative\<close>
  "str_int i = (if i < 0 then CHR ''-'' # str_nat (nat (- i)) else str_nat (nat i))"

definition py_slice_to :: "int \<Rightarrow> 'a list \<Rightarrow> 'a list" where
  \<comment> \<open>\<open>xs[:k]\<close>: a negative \<open>k\<close> counts from the end\<close>
  "py_slice_to k xs = (if 0 \<le> k then take (nat k) xs else take (length xs - nat (- k)) xs)"

definition is_digit :: "char \<Rightarrow> bool" where
  "is_digit c = (c \<in> set ''0123456789'')"

definition digit_val :: "char \<Rightarrow> nat" where
  "digit_val c = of_char c - 48"

definition parse_digits :: "string \<Rightarrow> nat" where
  "parse_digits ds = foldl (\<lambda>a c. 10 * a + digit_val c) 0 ds"

definition py_int :: "string \<Rightarrow> py_error + int" where
  \<comment> \<open>\<open>int(s)\<close> on an optional sign and decimal digits, the strings \<open>str\<close> produces;
      surrounding blanks and digit-group underscores are not modelled\<close>
  "py_int s =
     (case s of
        [] \<Rightarrow> Inl ValueError
      | c # cs \<Rightarrow>
          if c = CHR ''-'' \<or> c = CHR ''+'' then
            (if cs \<noteq> [] \<and> list_all is_digit cs
             then Inr (if c = CHR ''-'' then - int (parse_digits cs) else int (parse_digits cs))
             else Inl ValueError)
          else if list_all is_digit s then Inr (int (parse_digits s)) else Inl ValueError)"

fun py_min :: "'a::linorder list \<Rightarrow> py_error + 'a" where
  \<comment> \<open>\<open>min(xs)\<close> raises ValueError on an empty sequence\<close>
  "py_min [] = Inl ValueError"
| "py_min (x # xs) = Inr (fold min xs x)"

definition first_row :: "'a list list \<Rightarrow> py_error + 'a list" where
  \<comment> \<open>\<open>rows[0]\<close>\<close>
  "first_row rows = (case rows of [] \<Rightarrow> Inl IndexError | r # _ \<Rightarrow> Inr r)"

definition endswith :: "string \<Rightarrow> string \<Rightarrow> bool" where
  \<comment> \<open>\<open>s.endswith(suffix)\<close>\<close>
  "endswith s suffix = (length suffix \<le> length s \<and> drop (length s - length suffix) s = suffix)"

section \<open>The query processor (dt\_sim/processor/query\_processor.py)\<close>

type_synonym rawScoreIDs = "(string \<times> string) list"

text \<open>A Python dict keeps insertion order: an association list with distinct keys.\<close>

type_synonym DocPayload = "(string \<times> rawScoreIDs) list"

text \<open>
  The payload dictionaries: \<open>DocHit\<close> has the keys \<open>doc_id\<close>, \<open>id_score_tups\<close>,
  \<open>score\<close> (format\_payload\_docs); \<open>SingleHit\<close> has \<open>doc_id\<close>, \<open>score\<close>,
  \<open>sentence_id\<close> (format\_payload\_singles); \<open>SentHit\<close> has \<open>score\<close> and
  \<open>sentence_id\<close> (format\_payload of dt\_sim\_api).  The selector of the key \<open>x\<close>
  is \<open>hit_x\<close>.
\<close>

datatype hit_record =
    DocHit (hit_doc_id: string) (hit_id_score_tups: "(string \<times> string) list") (hit_score: string)
  | SingleHit (hit_doc_id: string) (hit_score: string) (hit_sentence_id: string)
  | SentHit (hit_score: string) (hit_sentence_id: string)

definition min_diff_cutoff :: "(rat \<Rightarrow> string) \<Rightarrow> rat \<Rightarrow> rat \<Rightarrow> string" where
  "min_diff_cutoff str_float diff_score cutoff = str_float (max diff_score cutoff)"

fun already_sorted :: "rawScoreIDs \<Rightarrow> bool" where
  \<comment> \<open>\<open>all(sc_ids[i][0] <= sc_ids[i+1][0] for i in range(len(sc_ids)-1))\<close>\<close>
  "already_sorted (a # b # rest) = (fst a \<le> fst b \<and> already_sorted (b # rest))"
| "already_sorted _ = True"

definition sort_score_ids :: "rawScoreIDs \<Rightarrow> rawScoreIDs" where
  "sort_score_ids sc_ids = (if \<not> already_sorted sc_ids then sort_key fst sc_ids else sc_ids)"

definition add_hit :: "(rat \<Rightarrow> string) \<Rightarrow> DocPayload \<Rightarrow> rat \<times> int \<Rightarrow> DocPayload" where
  \<comment> \<open>one round of the loop over \<open>zip(scores[0], faiss_ids[0])\<close>\<close>
  "add_hit str_float docs p =
     (case p of (score, faiss_id) \<Rightarrow>
        if faiss_id > 0 then
          let doc_id = str_int (faiss_id div 10000);
              docs1 = (if map_of docs doc_id = None then AList.update doc_id [] docs else docs)
          in AList.map_entry doc_id
               (\<lambda>hits. hits @ [(min_diff_cutoff str_float score (1/100), str_int faiss_id)]) docs1
        else docs)"

definition collect_docs :: "(rat \<Rightarrow> string) \<Rightarrow> rat list \<Rightarrow> int list \<Rightarrow> DocPayload" where
  "collect_docs str_float scores0 faiss_ids0 = foldl (add_hit str_float) [] (zip scores0 faiss_ids0)"

fun unique_docs :: "(string list \<Rightarrow> 'h) \<Rightarrow> DocPayload \<Rightarrow> 'h set \<Rightarrow> DocPayload \<Rightarrow> DocPayload" where
  \<comment> \<open>the loop of the branch \<open>require_unique_score\<close>, with \<open>unique_doc_scores\<close> and \<open>doc_hits\<close>\<close>
  "unique_docs phash [] unique_doc_scores doc_hits = doc_hits"
| "unique_docs phash ((doc_id, score_ids) # rest) unique_doc_scores doc_hits =
     (let doc_score_hash = phash (sort (map fst score_ids)) in
      if doc_score_hash \<notin> unique_doc_scores
      then unique_docs phash rest (insert doc_score_hash unique_doc_scores)
             (AList.update doc_id (sort_score_ids score_ids) doc_hits)
      else unique_docs phash rest unique_doc_scores doc_hits)"

fun all_docs :: "DocPayload \<Rightarrow> DocPayload \<Rightarrow> DocPayload" where
  \<comment> \<open>the loop of the other branch\<close>
  "all_docs [] doc_hits = doc_hits"
| "all_docs ((doc_id, score_ids) # rest) doc_hits =
     all_docs rest (AList.update doc_id (sort_score_ids score_ids) doc_hits)"

definition aggregate_docs ::
  "(rat \<Rightarrow> string) \<Rightarrow> (string list \<Rightarrow> 'h) \<Rightarrow> rat list list \<Rightarrow> int list list \<Rightarrow> bool
    \<Rightarrow> py_error + DocPayload" where
  "aggregate_docs str_float phash scores faiss_ids require_unique_score =
     (case first_row scores of Inl e \<Rightarrow> Inl e | Inr scores0 \<Rightarrow>
      case first_row faiss_ids of Inl e \<Rightarrow> Inl e | Inr faiss_ids0 \<Rightarrow>
        let docs = collect_docs str_float scores0 faiss_ids0 in
        if require_unique_score then Inr (unique_docs phash docs {} [])
        else Inr (all_docs docs []))"

fun format_payload_docs_loop :: "DocPayload \<Rightarrow> hit_record list \<Rightarrow> py_error + hit_record list" where
  "format_payload_docs_loop [] payload = Inr payload"
| "format_payload_docs_loop ((doc_id, score_ids) # rest) payload =
     (case py_min (map fst score_ids) of
        Inl e \<Rightarrow> Inl e
      | Inr m \<Rightarrow> format_payload_docs_loop rest
          (payload @ [DocHit doc_id (map (\<lambda>(diff, fid). (fid, diff)) score_ids) m]))"

definition format_payload_docs :: "DocPayload \<Rightarrow> py_error + hit_record list" where
  "format_payload_docs doc_hits =
     (case format_payload_docs_loop doc_hits [] of
        Inl e \<Rightarrow> Inl e
      | Inr payload \<Rightarrow> Inr (sort_key hit_score payload))"

fun format_payload_singles_loop :: "DocPayload \<Rightarrow> hit_record list \<Rightarrow> py_error + hit_record list" where
  "format_payload_singles_loop [] payload = Inr payload"
| "format_payload_singles_loop ((doc_id, score_ids) # rest) payload =
     (case score_ids of
        [] \<Rightarrow> Inl IndexError
      | (diff_score, faiss_id) # _ \<Rightarrow>
          format_payload_singles_loop rest (payload @ [SingleHit doc_id diff_score faiss_id]))"

definition format_payload_singles :: "DocPayload \<Rightarrow> py_error + hit_record list" where
  "format_payload_singles doc_hits =
     (case format_payload_singles_loop doc_hits [] of
        Inl e \<Rightarrow> Inl e
      | Inr payload \<Rightarrow> Inr (sort_key hit_score payload))"

text \<open>
  The processor: its index handler and its vectorizer are objects handed to the
  constructor, so they are fields that hold their one method.  The query vector has an
  abstract type \<open>'v\<close>.  \<open>indexer\<close> takes the vector, \<open>k\<close>, the radius, \<open>start\<close>
  and \<open>end\<close>.
\<close>

record 'v query_processor =
  indexer :: "'v \<Rightarrow> int \<Rightarrow> rat \<Rightarrow> string \<Rightarrow> string \<Rightarrow> py_error + (rat list list \<times> int list list)"
  vectorizer :: "string list \<Rightarrow> py_error + 'v"
  n_queries :: nat

definition vectorize :: "'v query_processor \<Rightarrow> string \<Rightarrow> py_error + 'v" where
  "vectorize self query = vectorizer self (take 1 [query])"

definition query_corpus ::
  "(rat \<Rightarrow> string) \<Rightarrow> (string list \<Rightarrow> 'h) \<Rightarrow> 'v query_processor \<Rightarrow> string \<Rightarrow> int \<Rightarrow> rat
    \<Rightarrow> string \<Rightarrow> string \<Rightarrow> bool \<Rightarrow> py_error + (hit_record list \<times> 'v query_processor)" where
  "query_corpus str_float phash self query_str k radius start end rerank_by_doc =
     (case vectorize self query_str of Inl e \<Rightarrow> Inl e | Inr query_vector \<Rightarrow>
      case indexer self query_vector k radius start end of Inl e \<Rightarrow> Inl e | Inr (scores, faiss_ids) \<Rightarrow>
      case aggregate_docs str_float phash scores faiss_ids True of Inl e \<Rightarrow> Inl e | Inr doc_hits \<Rightarrow>
      case (if rerank_by_doc then format_payload_docs doc_hits
            else format_payload_singles doc_hits) of Inl e \<Rightarrow> Inl e | Inr similar_docs \<Rightarrow>
        Inr (py_slice_to k similar_docs, self\<lparr>n_queries := n_queries self + 1\<rparr>))"

section \<open>The older query processor (dt\_sim\_api/processor/query\_processor.py)\<close>

type_synonym ApiDocs = "(string \<times> (rat \<times> int) list) list"

definition min_diff_cutoff_api :: "rat \<Rightarrow> rat \<Rightarrow> rat" where
  "min_diff_cutoff_api diff_score cutoff = max diff_score cutoff"

definition add_hit_api :: "ApiDocs \<Rightarrow> rat \<times> int \<Rightarrow> ApiDocs" where
  "add_hit_api docs p =
     (case p of (score, faiss_id) \<Rightarrow>
        let doc_id = str_int (faiss_id div 10000);
            docs1 = (if map_of docs doc_id = None then AList.update doc_id [] docs else docs)
        in AList.map_entry doc_id
             (\<lambda>hits. hits @ [(min_diff_cutoff_api score (1/10), faiss_id)]) docs1)"

definition aggregate_docs_api :: "rat list list \<Rightarrow> int list list \<Rightarrow> py_error + ApiDocs" where
  "aggregate_docs_api scores faiss_ids =
     (case first_row scores of Inl e \<Rightarrow> Inl e | Inr scores0 \<Rightarrow>
      case first_row faiss_ids of Inl e \<Rightarrow> Inl e | Inr faiss_ids0 \<Rightarrow>
        Inr (foldl add_hit_api [] (zip scores0 faiss_ids0)))"

fun format_payload_loop ::
  "(rat \<Rightarrow> string) \<Rightarrow> ApiDocs \<Rightarrow> hit_record list \<Rightarrow> py_error + hit_record list" where
  "format_payload_loop str_float [] payload = Inr payload"
| "format_payload_loop str_float ((doc_id, faiss_diff_ids) # rest) payload =
     (case py_int doc_id of
        Inl e \<Rightarrow> Inl e
      | Inr n \<Rightarrow>
          if n > 0
          then format_payload_loop str_float rest
                 (payload @ map (\<lambda>(faiss_diff, faiss_id).
                                   SentHit (str_float faiss_diff) (str_int faiss_id)) faiss_diff_ids)
          else format_payload_loop str_float rest payload)"

definition format_payload :: "(rat \<Rightarrow> string) \<Rightarrow> ApiDocs \<Rightarrow> py_error + hit_record list" where
  "format_payload str_float doc_hits =
     (case format_payload_loop str_float doc_hits [] of
        Inl e \<Rightarrow> Inl e
      | Inr payload \<Rightarrow> Inr (sort_key hit_score payload))"

record 'v api_query_processor =
  api_indexer :: "'v \<Rightarrow> int \<Rightarrow> py_error + (rat list list \<times> int list list)"
  api_vectorizer :: "string list \<Rightarrow> py_error + 'v"

definition query_corpus_api ::
  "(rat \<Rightarrow> string) \<Rightarrow> 'v api_query_processor \<Rightarrow> string \<Rightarrow> int \<Rightarrow> py_error + hit_record list" where
  "query_corpus_api str_float self query_str k =
     (case api_vectorizer self (take 1 [query_str]) of Inl e \<Rightarrow> Inl e | Inr query_vector \<Rightarrow>
      let k_search = max 500 (10 * k) in
      case api_indexer self query_vector k_search of Inl e \<Rightarrow> Inl e | Inr (scores, faiss_ids) \<Rightarrow>
      case aggregate_docs_api scores faiss_ids of Inl e \<Rightarrow> Inl e | Inr doc_hits \<Rightarrow>
      case format_payload str_float doc_hits of Inl e \<Rightarrow> Inl e | Inr similar_docs \<Rightarrow>
        Inr (py_slice_to k similar_docs))"

section \<open>The shard managers (dt\_sim/indexer/ivf\_index\_handlers.py)\<close>

text \<open>
  A call that changes the object returns the new object with its result, or the exception
  with the object as the exception leaves it.
\<close>

datatype ('a, 's) outcome = Returned 'a 's | Raised py_error 's

fun py_replace :: "string \<Rightarrow> string \<Rightarrow> string \<Rightarrow> string" where
  \<comment> \<open>\<open>s.replace(old, new)\<close> for a non-empty \<open>old\<close>: every occurrence, from the left\<close>
  "py_replace old new [] = []"
| "py_replace old new (c # cs) =
     (if old \<noteq> [] \<and> take (length old) (c # cs) = old
      then new @ py_replace old new (drop (length old - 1) cs)
      else c # py_replace old new cs)"

declare py_replace.simps [simp del]

text \<open>
  \<open>re.search('\d{4}[-/]\d{2}[-/]\d{2}', s)\<close>: the leftmost match of four digits, a
  separator, two digits, a separator, two digits; \<open>None\<close> when there is none.  The
  characters of \<open>string\<close> are bytes, where \<open>\d\<close> is \<open>0\<close> to \<open>9\<close>.
\<close>

definition is_sep :: "char \<Rightarrow> bool" where
  "is_sep c = (c = CHR ''-'' \<or> c = CHR ''/'')"

definition date_at :: "string \<Rightarrow> bool" where
  "date_at s =
     (10 \<le> length s \<and> list_all is_digit (take 4 s) \<and> is_sep (s ! 4)
      \<and> list_all is_digit (take 2 (drop 5 s)) \<and> is_sep (s ! 7)
      \<and> list_all is_digit (take 2 (drop 8 s)))"

fun re_search_date :: "string \<Rightarrow> string option" where
  "re_search_date [] = None"
| "re_search_date (c # cs) =
     (if date_at (c # cs) then Some (take 10 (c # cs)) else re_search_date cs)"

declare re_search_date.simps [simp del]

text \<open>
  A faiss index is used through \<open>range_search(query, radius)\<close> only, which returns the
  distances and the ids of the neighbours in the order of its scan: an index is that
  function.  The query vector has an abstract type \<open>'q\<close>; its reshaping to one row is
  not modelled.  Reading an index file is the parameter \<open>read_index\<close>, which takes the
  path and whether \<open>IO_FLAG_ONDISK_SAME_DIR\<close> is set, and gives \<open>None\<close> where faiss
  raises RuntimeError.  The decorator \<open>faiss_cache\<close> is outside the sources: the
  functions are modelled as they are written, without the cache.
\<close>

type_synonym 'q faiss_index = "'q \<Rightarrow> rat \<Rightarrow> rat list \<times> int list"

type_synonym result_queue = "(rat list \<times> int list) list"

type_synonym FaissSearch = "rat list list \<times> int list list"

text \<open>
  A \<open>Shard\<close> worker: its index and the receiving end of its pipe, the messages sent and
  not yet received.  The output queue is the manager's \<open>results\<close>.
\<close>

record 'q shard =
  shard_index :: "'q faiss_index"
  shard_nprobe :: nat
  shard_input :: "('q \<times> rat) list"

definition new_shard ::
  "(string \<Rightarrow> bool \<Rightarrow> 'q faiss_index option) \<Rightarrow> string \<Rightarrow> nat \<Rightarrow> py_error + 'q shard" where
  \<comment> \<open>\<open>Shard.__init__\<close>\<close>
  "new_shard read_index shard_path nprobe0 =
     (case read_index shard_path False of
        Some idx \<Rightarrow> Inr \<lparr>shard_index = idx, shard_nprobe = nprobe0, shard_input = []\<rparr>
      | None \<Rightarrow>
         (case read_index shard_path True of
            Some idx \<Rightarrow> Inr \<lparr>shard_index = idx, shard_nprobe = nprobe0, shard_input = []\<rparr>
          | None \<Rightarrow> Inl RuntimeError))"

definition send :: "'q shard \<Rightarrow> 'q \<times> rat \<Rightarrow> 'q shard" where
  \<comment> \<open>\<open>hpipe.send(...)\<close> on the sending end of the shard's pipe\<close>
  "send sh msg = sh\<lparr>shard_input := shard_input sh @ [msg]\<rparr>"

definition run :: "'q shard \<Rightarrow> result_queue \<Rightarrow> 'q shard \<times> result_queue" where
  \<comment> \<open>\<open>Shard.run\<close>: when a message waits, answer it on the output queue\<close>
  "run sh output =
     (case shard_input sh of
        [] \<Rightarrow> (sh, output)
      | (query_vector, radius_limit) # waiting \<Rightarrow>
          (sh\<lparr>shard_input := waiting\<rparr>, output @ [shard_index sh query_vector radius_limit]))"

record 'q range_shards =
  paths_to_shards :: "string list"
  nprobe :: nat
  lock :: bool
  results :: result_queue
  shards :: "(string \<times> 'q shard) list"
  n_shards :: nat

definition load_shard ::
  "(string \<Rightarrow> bool \<Rightarrow> 'q faiss_index option) \<Rightarrow> 'q range_shards \<Rightarrow> string
    \<Rightarrow> py_error + 'q range_shards" where
  "load_shard read_index self shard_path =
     (let shard_name = py_replace ''.index'' '''' shard_path in
      case new_shard read_index shard_path (nprobe self) of
        Inl e \<Rightarrow> Inl e
      | Inr shard \<Rightarrow> Inr (self\<lparr>shards := AList.update shard_name shard (shards self)\<rparr>))"

fun load_shards ::
  "(string \<Rightarrow> bool \<Rightarrow> 'q faiss_index option) \<Rightarrow> 'q range_shards \<Rightarrow> string list
    \<Rightarrow> py_error + 'q range_shards" where
  "load_shards read_index self [] = Inr self"
| "load_shards read_index self (shard_path # later) =
     (case load_shard read_index self shard_path of
        Inl e \<Rightarrow> Inl e
      | Inr self' \<Rightarrow> load_shards read_index self' later)"

definition range_shards_init ::
  "(string \<Rightarrow> bool \<Rightarrow> 'q faiss_index option) \<Rightarrow> string list \<Rightarrow> nat \<Rightarrow> py_error + 'q range_shards" where
  \<comment> \<open>\<open>RangeShards.__init__\<close>, given the paths that \<open>get_index_paths(shard_dir)\<close> found;
      a started worker finds its pipe empty and ends\<close>
  "range_shards_init read_index index_paths nprobe0 =
     (case load_shards read_index
             \<lparr>paths_to_shards = index_paths, nprobe = nprobe0, lock = False, results = [],
              shards = [], n_shards = 0\<rparr> index_paths of
        Inl e \<Rightarrow> Inl e
      | Inr self \<Rightarrow> Inr (self\<lparr>n_shards := length (shards self)\<rparr>))"

partial_function (option) wait_for_lock :: "'q range_shards \<Rightarrow> 'q range_shards option" where
  \<comment> \<open>\<open>while self.lock: sleep(1)\<close>; nothing else runs, so a set lock is waited for forever\<close>
  "wait_for_lock self = (if lock self then wait_for_lock self else Some self)"

fun dispatch_loop ::
  "'q \<Rightarrow> rat \<Rightarrow> string \<Rightarrow> string \<Rightarrow> (string \<times> 'q shard) list \<Rightarrow> (string \<times> 'q shard) list
    \<Rightarrow> result_queue \<Rightarrow> int
    \<Rightarrow> py_error \<times> (string \<times> 'q shard) list \<times> result_queue
        + (string \<times> 'q shard) list \<times> result_queue \<times> int" where
  \<comment> \<open>the loop over \<open>self.shards.items()\<close>: the shards still to visit, the shards visited,
      the queue and \<open>n_results\<close>\<close>
  "dispatch_loop query_vector radius start end [] visited queue n_results =
     Inr (visited, queue, n_results)"
| "dispatch_loop query_vector radius start end ((shard_name, shard) # rest) visited queue n_results =
     (case re_search_date shard_name of
        None \<Rightarrow> Inl (AttributeError, visited @ (shard_name, shard) # rest, queue)
      | Some shard_date \<Rightarrow>
          if start \<le> shard_date \<and> shard_date \<le> end then
            (case run (send shard (query_vector, radius)) queue of
               (shard', queue') \<Rightarrow>
                 dispatch_loop query_vector radius start end rest
                   (visited @ [(shard_name, shard')]) queue' (n_results + 1))
          else dispatch_loop query_vector radius start end rest
                 (visited @ [(shard_name, shard)]) queue n_results)"

fun collect :: "int \<Rightarrow> int \<Rightarrow> result_queue \<Rightarrow> rat list \<Rightarrow> int list \<Rightarrow> (rat list \<times> int list) option" where
  \<comment> \<open>\<open>while n_results > 0 or not self.results.empty()\<close>; \<open>get\<close> on an empty queue
      waits forever\<close>
  "collect k n_results [] D I = (if n_results > 0 then None else Some (D, I))"
| "collect k n_results ((dd, ii) # queue) D I =
     collect k (n_results - 1) queue (D @ py_slice_to k dd) (I @ py_slice_to k ii)"

definition joint_sort :: "rat list list \<Rightarrow> int list list \<Rightarrow> FaissSearch" where
  \<comment> \<open>Modelled from the spec: \<open>joint_sort\<close> of base\_indexer.py, which is not in the sources.
      The distances and ids of the one row, sorted jointly by ascending distance, then id.\<close>
  "joint_sort scores ids =
     (case (scores, ids) of
        (scores0 # _, ids0 # _) \<Rightarrow>
          (let pairs = sort_key fst (sort_key snd (zip scores0 ids0))
           in ([map fst pairs], [map snd pairs]))
      | _ \<Rightarrow> (scores, ids))"

definition search ::
  "'q range_shards \<Rightarrow> 'q \<Rightarrow> int \<Rightarrow> rat \<Rightarrow> string \<Rightarrow> string
    \<Rightarrow> (FaissSearch, 'q range_shards) outcome option" where
  "search self query_vector k radius start end =
     (case wait_for_lock self of
        None \<Rightarrow> None
      | Some self0 \<Rightarrow>
          let self1 = self0\<lparr>lock := True\<rparr> in
          case dispatch_loop query_vector radius start end (shards self1) [] (results self1) 0 of
            Inl (e, shards', queue) \<Rightarrow> Some (Raised e (self1\<lparr>shards := shards', results := queue\<rparr>))
          | Inr (shards', queue, n_results) \<Rightarrow>
             (case collect k n_results queue [] [] of
                None \<Rightarrow> None
              | Some (D, I) \<Rightarrow>
                  Some (Returned (joint_sort [D] [I])
                          (self1\<lparr>shards := shards', results := [], lock := False\<rparr>))))"

definition add_shard ::
  "(string \<Rightarrow> bool \<Rightarrow> 'q faiss_index option) \<Rightarrow> 'q range_shards \<Rightarrow> string
    \<Rightarrow> (bool, 'q range_shards) outcome" where
  \<comment> \<open>\<open>RangeShards.add_shard\<close>; the result tells whether the warning was printed\<close>
  "add_shard read_index self new_shard_path =
     (let self1 = self\<lparr>lock := True\<rparr>;
          shard_name = py_replace ''.index'' '''' new_shard_path in
      if new_shard_path \<in> set (paths_to_shards self1) \<or> map_of (shards self1) shard_name \<noteq> None
      then Returned True (self1\<lparr>lock := False\<rparr>)
      else
        let self2 = self1\<lparr>paths_to_shards := paths_to_shards self1 @ [new_shard_path]\<rparr> in
        case load_shard read_index self2 new_shard_path of
          Inl e \<Rightarrow> Raised e self2
        | Inr self3 \<Rightarrow> Returned False (self3\<lparr>lock := False\<rparr>))"

text \<open>\<open>DeployShards\<close>: the paths and the shards of its \<open>faiss.IndexShards\<close>.\<close>

record 'q deploy_shards =
  deploy_paths_to_shards :: "string list"
  deploy_nprobe :: nat
  deploy_index :: "('q faiss_index \<times> nat) list"

definition deploy_load_shard ::
  "(string \<Rightarrow> bool \<Rightarrow> 'q faiss_index option) \<Rightarrow> string \<Rightarrow> nat \<Rightarrow> py_error + 'q faiss_index \<times> nat" where
  "deploy_load_shard read_index path_to_shard nprobe0 =
     (case read_index path_to_shard False of
        Some shard \<Rightarrow> Inr (shard, nprobe0)
      | None \<Rightarrow>
         (case read_index path_to_shard True of
            Some shard \<Rightarrow> Inr (shard, nprobe0)
          | None \<Rightarrow> Inl RuntimeError))"

definition deploy_add_shard ::
  "(string \<Rightarrow> bool \<Rightarrow> 'q faiss_index option) \<Rightarrow> 'q deploy_shards \<Rightarrow> string
    \<Rightarrow> (bool, 'q deploy_shards) outcome" where
  \<comment> \<open>\<open>DeployShards.add_shard\<close>\<close>
  "deploy_add_shard read_index self new_shard_path =
     (if new_shard_path \<in> set (deploy_paths_to_shards self) then Returned True self
      else
        let self1 = self\<lparr>deploy_paths_to_shards := deploy_paths_to_shards self @ [new_shard_path]\<rparr> in
        case deploy_load_shard read_index new_shard_path (deploy_nprobe self1) of
          Inl e \<Rightarrow> Raised e self1
        | Inr shard \<Rightarrow> Returned False (self1\<lparr>deploy_index := deploy_index self1 @ [shard]\<rparr>))"

section \<open>The index builders (dt\_sim/indexer/index\_builder.py and the older DiskBuilderIVF)\<close>

text \<open>
  Inverted lists: the size of a code and one posting list of (code, id) entries for each
  centroid; \<open>nlist\<close> is the number of the lists.  The codes have an abstract type \<open>'c\<close>.
  An IVF index holds its flags, its count and its inverted lists.
\<close>

record 'c inverted_lists =
  il_code_size :: nat
  il_lists :: "('c \<times> int) list list"

definition il_nlist :: "'c inverted_lists \<Rightarrow> nat" where
  "il_nlist il = length (il_lists il)"

definition il_size :: "'c inverted_lists \<Rightarrow> nat" where
  \<comment> \<open>the number of entries of all lists\<close>
  "il_size il = sum_list (map length (il_lists il))"

record 'c ivf_index =
  is_trained :: bool
  ntotal :: nat
  invlists :: "'c inverted_lists"

definition nlist :: "'c ivf_index \<Rightarrow> nat" where
  "nlist index = il_nlist (invlists index)"

definition code_size :: "'c ivf_index \<Rightarrow> nat" where
  "code_size index = il_code_size (invlists index)"

text \<open>
  The file system: a path holds an index file, the payload file of on-disk inverted lists,
  or some other file.
\<close>

datatype 'c disk_file = IndexFile "'c ivf_index" | IvfData "('c \<times> int) list list" | OtherFile

type_synonym 'c files = "string \<rightharpoonup> 'c disk_file"

definition isfile :: "'c files \<Rightarrow> string \<Rightarrow> bool" where
  "isfile fs path = (fs path \<noteq> None)"

definition faiss_read_index :: "'c files \<Rightarrow> string \<Rightarrow> py_error + 'c ivf_index" where
  \<comment> \<open>\<open>faiss.read_index(path)\<close>: RuntimeError unless the path holds an index file\<close>
  "faiss_read_index fs path =
     (case fs path of Some (IndexFile index) \<Rightarrow> Inr index | _ \<Rightarrow> Inl RuntimeError)"

definition OnDiskInvertedLists :: "nat \<Rightarrow> nat \<Rightarrow> 'c inverted_lists" where
  \<comment> \<open>Modelled from the spec: \<open>create_ondisk(nlist, code_size, path)\<close> of faiss, section 4.1:
      the directory of \<open>nlist\<close> lists is allocated, the payload is empty.\<close>
  "OnDiskInvertedLists nlist0 code_size0 = \<lparr>il_code_size = code_size0, il_lists = replicate nlist0 []\<rparr>"

definition merge_from ::
  "'c inverted_lists \<Rightarrow> 'c inverted_lists list \<Rightarrow> py_error + 'c inverted_lists \<times> nat" where
  \<comment> \<open>Modelled from the spec: \<open>merge_from\<close> of faiss, section 4.1.  For each centroid and
      each source, in the order of the sources, the list of the source is appended to the
      list of the store; the result is the number of entries taken from the sources.  A
      source whose number of lists or code size differs from the store's is refused.\<close>
  "merge_from store sources =
     (if list_ex (\<lambda>s. il_nlist s \<noteq> il_nlist store \<or> il_code_size s \<noteq> il_code_size store) sources
      then Inl Corrupt
      else Inr (store\<lparr>il_lists :=
                   map (\<lambda>c. il_lists store ! c @ concat (map (\<lambda>s. il_lists s ! c) sources))
                     [0..<il_nlist store]\<rparr>,
                sum_list (map il_size sources)))"

definition add_with_ids ::
  "('v \<Rightarrow> nat) \<Rightarrow> ('v \<Rightarrow> 'c) \<Rightarrow> 'c ivf_index \<Rightarrow> 'v list \<Rightarrow> int list \<Rightarrow> 'c ivf_index" where
  \<comment> \<open>Modelled from the spec: \<open>add_with_ids\<close> of faiss.  \<open>quantize\<close> gives the centroid of a
      vector and \<open>encode\<close> its code; each (code, id) goes to the end of the centroid's list.\<close>
  "add_with_ids quantize encode index embeddings faiss_ids =
     index\<lparr>ntotal := ntotal index + length embeddings,
           invlists := (invlists index)\<lparr>il_lists :=
             foldl (\<lambda>ls (v, i). ls[quantize v := ls ! quantize v @ [(encode v, i)]])
               (il_lists (invlists index)) (zip embeddings faiss_ids)\<rparr>\<rparr>"

text \<open>The lines that \<open>index_path_clear\<close> prints.\<close>

datatype notice =
    IndexAlreadyExists string | InvalidIndexFilename string | UnexpectedIndexPath string

record builder =
  path_to_base_index :: string
  subindex_path_totals :: "(string \<times> nat) list"

definition index_path_clear :: "'c files \<Rightarrow> string \<Rightarrow> string \<Rightarrow> bool \<times> notice list" where
  \<comment> \<open>the result and what is printed\<close>
  "index_path_clear fs index_path file_suffix =
     (if \<not> isfile fs index_path \<and> endswith index_path file_suffix then (True, [])
      else if isfile fs index_path \<and> endswith index_path file_suffix
        then (False, [IndexAlreadyExists index_path])
      else if \<not> endswith index_path file_suffix
        then (False, [InvalidIndexFilename index_path])
      else (False, [UnexpectedIndexPath index_path]))"

definition load_base_idx :: "'c files \<Rightarrow> builder \<Rightarrow> py_error + 'c ivf_index" where
  "load_base_idx fs self =
     (case faiss_read_index fs (path_to_base_index self) of
        Inl e \<Rightarrow> Inl e
      | Inr base_index \<Rightarrow>
          if is_trained base_index \<and> ntotal base_index = 0 then Inr base_index
          else Inl BaseIndexNotEmpty)"

definition index_embs_and_ids ::
  "('v \<Rightarrow> nat) \<Rightarrow> ('v \<Rightarrow> 'c) \<Rightarrow> 'c ivf_index \<Rightarrow> 'v list \<Rightarrow> int list \<Rightarrow> py_error + 'c ivf_index" where
  "index_embs_and_ids quantize encode index embeddings faiss_ids =
     (if length embeddings = length faiss_ids
      then Inr (add_with_ids quantize encode index embeddings faiss_ids)
      else Inl AssertionError)"

definition generate_subindex ::
  "('v \<Rightarrow> nat) \<Rightarrow> ('v \<Rightarrow> 'c) \<Rightarrow> 'c files \<Rightarrow> builder \<Rightarrow> string \<Rightarrow> 'v list \<Rightarrow> int list
    \<Rightarrow> (notice list, builder \<times> 'c files) outcome" where
  \<comment> \<open>the result is what was printed; the state is the builder and the file system\<close>
  "generate_subindex quantize encode fs self subindex_path embeddings faiss_ids =
     (case index_path_clear fs subindex_path ''.index'' of
        (clear, printed) \<Rightarrow>
          if clear then
            (case load_base_idx fs self of
               Inl e \<Rightarrow> Raised e (self, fs)
             | Inr index0 \<Rightarrow>
                (case index_embs_and_ids quantize encode index0 embeddings faiss_ids of
                   Inl e \<Rightarrow> Raised e (self, fs)
                 | Inr index \<Rightarrow>
                     Returned printed
                       (self\<lparr>subindex_path_totals :=
                               AList.update subindex_path (ntotal index) (subindex_path_totals self)\<rparr>,
                        fs(subindex_path \<mapsto> IndexFile index))))
          else Returned printed (self, fs))"

fun read_invlists :: "'c files \<Rightarrow> string list \<Rightarrow> py_error + 'c inverted_lists list" where
  \<comment> \<open>the first loop of \<open>merge_IVFs\<close> and of \<open>build_disk_index\<close>\<close>
  "read_invlists fs [] = Inr []"
| "read_invlists fs (subindex_path # later) =
     (case faiss_read_index fs subindex_path of
        Inl e \<Rightarrow> Inl e
      | Inr index \<Rightarrow>
         (case read_invlists fs later of
            Inl e \<Rightarrow> Inl e
          | Inr ivfs \<Rightarrow> Inr (invlists index # ivfs)))"

definition merge_IVFs ::
  "'c files \<Rightarrow> builder \<Rightarrow> string \<Rightarrow> string \<Rightarrow> string list \<Rightarrow> (nat, 'c files) outcome" where
  \<comment> \<open>\<open>ivfindex_paths\<close> is \<open>[]\<close> where the source has \<open>None\<close> or an empty list\<close>
  "merge_IVFs fs self index_path ivfdata_path ivfindex_paths =
     (let paths = (if ivfindex_paths = [] then map fst (subindex_path_totals self)
                   else ivfindex_paths) in
      case read_invlists fs paths of
        Inl e \<Rightarrow> Raised e fs
      | Inr ivfs \<Rightarrow>
         (case load_base_idx fs self of
            Inl e \<Rightarrow> Raised e fs
          | Inr index \<Rightarrow>
             (case merge_from (OnDiskInvertedLists (nlist index) (code_size index)) ivfs of
                Inl e \<Rightarrow> Raised e fs
              | Inr (merged, n) \<Rightarrow>
                  Returned n
                    (fs(ivfdata_path \<mapsto> IvfData (il_lists merged),
                        index_path \<mapsto> IndexFile (index\<lparr>ntotal := n, invlists := merged\<rparr>))))))"




text \<open>
  What Python's \<open>str\<close> returns on the floats of the worked examples below
  (\<open>str(0.01) = '0.01'\<close>, \<open>str(numpy.float32(9.0)) = '9.0'\<close>, ...); it is only
  used to evaluate the functions at concrete inputs.
\<close>

definition str_float_sample :: "rat \<Rightarrow> string" where
  "str_float_sample r =
     (if r = 1/100 then ''0.01'' else if r = 1/20 then ''0.05'' else if r = 1/10 then ''0.1''
      else if r = 1/5 then ''0.2'' else if r = 1/2 then ''0.5'' else if r = 9 then ''9.0''
      else if r = 10 then ''10.0'' else ''nan'')"

definition hits_nonempty :: "DocPayload \<Rightarrow> bool" where
  "hits_nonempty docs = list_all (\<lambda>entry. snd entry \<noteq> []) docs"

text \<open>Invariants of the document dictionaries and of the payload records.\<close>

definition ids_grouped :: "DocPayload \<Rightarrow> bool" where
  "ids_grouped docs =
     (\<forall>entry \<in> set docs. \<forall>pair \<in> set (snd entry).
        \<exists>i>0. snd pair = str_int i \<and> fst entry = str_int (i div 10000))"

definition doc_hit_ok :: "hit_record \<Rightarrow> bool" where
  "doc_hit_ok r = (\<forall>t \<in> set (hit_id_score_tups r).
      \<exists>i>0. fst t = str_int i \<and> hit_doc_id r = str_int (i div 10000))"

definition single_hit_ok :: "hit_record \<Rightarrow> bool" where
  "single_hit_ok r = (\<exists>i>0. hit_sentence_id r = str_int i \<and> hit_doc_id r = str_int (i div 10000))"

definition api_grouped :: "ApiDocs \<Rightarrow> bool" where
  "api_grouped docs =
     (\<forall>entry \<in> set docs. \<forall>pair \<in> set (snd entry). fst entry = str_int (snd pair div 10000))"

definition sent_hit_ok :: "hit_record \<Rightarrow> bool" where
  "sent_hit_ok r = (\<exists>i>0. hit_sentence_id r = str_int i)"

text \<open>
  Processors for the worked examples: the index handler answers every search with the
  distances \<open>D\<close> and the ids \<open>I\<close>, the vectorizer returns a vector without content.
\<close>

definition fixed_processor :: "rat list \<Rightarrow> int list \<Rightarrow> unit query_processor" where
  "fixed_processor D I =
     \<lparr>indexer = (\<lambda>query_vector k radius start end. Inr ([D], [I])),
      vectorizer = (\<lambda>query. Inr ()), n_queries = 0\<rparr>"

definition fixed_api_processor :: "rat list \<Rightarrow> int list \<Rightarrow> unit api_query_processor" where
  "fixed_api_processor D I =
     \<lparr>api_indexer = (\<lambda>query_vector k. Inr ([D], [I])), api_vectorizer = (\<lambda>query. Inr ())\<rparr>"

text \<open>
  Whether a shard is in the date window of a query, and what it answers.
\<close>

definition in_window :: "string \<Rightarrow> string \<Rightarrow> string \<times> 'q shard \<Rightarrow> bool" where
  "in_window start end entry =
     (case re_search_date (fst entry) of None \<Rightarrow> False | Some shard_date \<Rightarrow> start \<le> shard_date \<and> shard_date \<le> end)"

definition answer :: "'q \<Rightarrow> rat \<Rightarrow> string \<times> 'q shard \<Rightarrow> rat list \<times> int list" where
  "answer query_vector radius entry = shard_index (snd entry) query_vector radius"

text \<open>
  The state of a manager between two calls: the lock is free, the queue is empty and no
  message waits in a pipe.
\<close>

definition idle :: "'q range_shards \<Rightarrow> bool" where
  "idle self = (\<not> lock self \<and> results self = []
                \<and> list_all (\<lambda>entry. shard_input (snd entry) = []) (shards self))"

text \<open>
  Index files and managers for the worked examples: three files, of which one has no date
  in its name; the manager that \<open>RangeShards.__init__\<close> builds from the two dated
  files, the one it builds from the undated file, and the one it builds from the undated
  file and a dated one.
\<close>

definition sample_read_index :: "string \<Rightarrow> bool \<Rightarrow> unit faiss_index option" where
  "sample_read_index path same_dir =
     (if path = ''2020-01-01_a.index'' then Some (\<lambda>query radius. ([3/10], [10001]))
      else if path = ''2020-01-02_b.index'' then Some (\<lambda>query radius. ([1/2, 1/10], [20001, 20002]))
      else if path = ''shard_a.index'' then Some (\<lambda>query radius. ([1/5], [30001]))
      else None)"

definition two_shard_manager :: "unit range_shards" where
  "two_shard_manager =
     \<lparr>paths_to_shards = [''2020-01-01_a.index'', ''2020-01-02_b.index''], nprobe = 4,
      lock = False, results = [],
      shards =
        [(''2020-01-01_a'',
          \<lparr>shard_index = (\<lambda>query radius. ([3/10], [10001])), shard_nprobe = 4, shard_input = []\<rparr>),
         (''2020-01-02_b'',
          \<lparr>shard_index = (\<lambda>query radius. ([1/2, 1/10], [20001, 20002])), shard_nprobe = 4,
           shard_input = []\<rparr>)],
      n_shards = 2\<rparr>"

definition undated_manager :: "unit range_shards" where
  "undated_manager =
     \<lparr>paths_to_shards = [''shard_a.index''], nprobe = 4, lock = False, results = [],
      shards =
        [(''shard_a'',
          \<lparr>shard_index = (\<lambda>query radius. ([1/5], [30001])), shard_nprobe = 4, shard_input = []\<rparr>)],
      n_shards = 1\<rparr>"

definition mixed_manager :: "unit range_shards" where
  "mixed_manager =
     \<lparr>paths_to_shards = [''shard_a.index'', ''2020-01-02_b.index''], nprobe = 4,
      lock = False, results = [],
      shards =
        [(''shard_a'',
          \<lparr>shard_index = (\<lambda>query radius. ([1/5], [30001])), shard_nprobe = 4, shard_input = []\<rparr>),
         (''2020-01-02_b'',
          \<lparr>shard_index = (\<lambda>query radius. ([1/2, 1/10], [20001, 20002])), shard_nprobe = 4,
           shard_input = []\<rparr>)],
      n_shards = 2\<rparr>"

text \<open>
  Files and builders for the worked examples: an empty trained base index with two lists,
  two sub-indexes with one and two entries, and a file that is no index.
\<close>

definition sample_files :: "nat files" where
  "sample_files = map_of
     [(''base.index'',
         IndexFile \<lparr>is_trained = True, ntotal = 0,
                    invlists = \<lparr>il_code_size = 8, il_lists = [[], []]\<rparr>\<rparr>),
      (''a.index'',
         IndexFile \<lparr>is_trained = True, ntotal = 1,
                    invlists = \<lparr>il_code_size = 8, il_lists = [[(11, 10001)], []]\<rparr>\<rparr>),
      (''b.index'',
         IndexFile \<lparr>is_trained = True, ntotal = 2,
                    invlists = \<lparr>il_code_size = 8, il_lists = [[(12, 20001)], [(13, 20002)]]\<rparr>\<rparr>),
      (''notes.txt'', OtherFile)]"

definition sample_builder :: builder where
  "sample_builder = \<lparr>path_to_base_index = ''base.index'', subindex_path_totals = []\<rparr>"


text \<open>
  What a path of the file system contributes to a merge: whether it holds an index file,
  and the (code, id) entries of that index.
\<close>

definition holds_index :: "'c files \<Rightarrow> string \<Rightarrow> bool" where
  "holds_index fs path = (case fs path of Some (IndexFile index) \<Rightarrow> True | _ \<Rightarrow> False)"

definition file_entries :: "'c files \<Rightarrow> string \<Rightarrow> ('c \<times> int) multiset" where
  "file_entries fs path =
     (case fs path of
        Some (IndexFile index) \<Rightarrow> mset (concat (il_lists (invlists index)))
      | _ \<Rightarrow> {#})"

section \<open>Rendering an integer and reading it back\<close>

lemma digit_char_props:
  assumes "d < 10"
  shows "is_digit (digit_char d)" and "digit_val (digit_char d) = d" and "digit_char d \<noteq> CHR ''-''"
    and "digit_char d \<noteq> CHR ''+''"
proof -
  from assms have "d \<in> {0, 1, 2, 3, 4, 5, 6, 7, 8, 9}" by auto
  then show "is_digit (digit_char d)" and "digit_val (digit_char d) = d"
    and "digit_char d \<noteq> CHR ''-''" and "digit_char d \<noteq> CHR ''+''"
    by (auto simp: digit_char_def is_digit_def digit_val_def)
qed

lemma str_nat_digits: "list_all is_digit (str_nat n) \<and> str_nat n \<noteq> []"
proof (induction n rule: str_nat.induct)
  case (1 n)
  show ?case
  proof (cases "n < 10")
    case True
    then show ?thesis by (subst (1 2) str_nat.simps) (simp add: digit_char_props)
  next
    case False
    with 1 show ?thesis by (subst (1 2) str_nat.simps) (simp add: digit_char_props)
  qed
qed

lemma parse_digits_snoc: "parse_digits (ds @ [c]) = 10 * parse_digits ds + digit_val c"
  by (simp add: parse_digits_def)

lemma parse_digits_str_nat: "parse_digits (str_nat n) = n"
proof (induction n rule: str_nat.induct)
  case (1 n)
  show ?case
  proof (cases "n < 10")
    case True
    then show ?thesis by (subst str_nat.simps) (simp add: parse_digits_def digit_char_props)
  next
    case False
    with 1 show ?thesis by (subst str_nat.simps) (simp add: parse_digits_snoc digit_char_props)
  qed
qed

lemma str_nat_hd: "\<exists>c cs. str_nat n = c # cs \<and> c \<noteq> CHR ''-'' \<and> c \<noteq> CHR ''+''"
proof -
  obtain c cs where e: "str_nat n = c # cs" using str_nat_digits [of n] by (cases "str_nat n") auto
  then have "is_digit c" using str_nat_digits [of n] by simp
  then have "c \<noteq> CHR ''-'' \<and> c \<noteq> CHR ''+''" by (auto simp: is_digit_def)
  with e show ?thesis by blast
qed

lemma py_int_str_int: "py_int (str_int i) = Inr i"
proof (cases "i < 0")
  case True
  then show ?thesis
    using str_nat_digits [of "nat (- i)"]
    by (simp add: str_int_def py_int_def parse_digits_str_nat)
next
  case False
  obtain c cs where e: "str_nat (nat i) = c # cs" "c \<noteq> CHR ''-''" "c \<noteq> CHR ''+''"
    using str_nat_hd by blast
  have "list_all is_digit (c # cs)" using str_nat_digits [of "nat i"] e by simp
  moreover have "parse_digits (c # cs) = nat i" using parse_digits_str_nat [of "nat i"] e by simp
  ultimately show ?thesis using False e
    by (simp add: str_int_def py_int_def)
qed

text \<open>Two integers with the same rendering are equal.\<close>

lemma str_int_inject: "str_int i = str_int j \<Longrightarrow> i = j"
  by (metis py_int_str_int sum.inject(2))

section \<open>Facts about the dictionary operations\<close>

lemma set_update_subset: "set (AList.update k v al) \<subseteq> insert (k, v) (set al)"
  by (induction al) auto

lemma set_map_entry_cases:
  "x \<in> set (AList.map_entry k f al) \<Longrightarrow> x \<in> set al \<or> (\<exists>v. (k, v) \<in> set al \<and> x = (k, f v))"
  by (induction al) (auto split: if_splits)

section \<open>Every document of aggregate\_docs has a hit\<close>

lemma hits_nonempty_update:
  "hits_nonempty docs \<Longrightarrow> v \<noteq> [] \<Longrightarrow> hits_nonempty (AList.update k v docs)"
  unfolding hits_nonempty_def list_all_iff using set_update_subset [of k v docs] by auto

lemma sort_key_not_Nil: "s \<noteq> [] \<Longrightarrow> sort_key f s \<noteq> []"
  by (metis length_0_conv length_sort)

lemma sort_score_ids_nonempty: "s \<noteq> [] \<Longrightarrow> sort_score_ids s \<noteq> []"
  by (simp add: sort_score_ids_def sort_key_not_Nil)

lemma map_entry_update_fresh:
  "map_of al k = None \<Longrightarrow> AList.map_entry k f (AList.update k v al) = al @ [(k, f v)]"
  by (induction al) auto

lemma add_hit_positive:
  assumes "fid > 0"
  shows "add_hit str_float docs (sc, fid) =
    (if map_of docs (str_int (fid div 10000)) = None
     then docs @ [(str_int (fid div 10000), [(min_diff_cutoff str_float sc (1/100), str_int fid)])]
     else AList.map_entry (str_int (fid div 10000))
            (\<lambda>hits. hits @ [(min_diff_cutoff str_float sc (1/100), str_int fid)]) docs)"
  using assms by (simp add: add_hit_def Let_def map_entry_update_fresh)

lemma add_hit_nonpositive: "\<not> fid > 0 \<Longrightarrow> add_hit str_float docs (sc, fid) = docs"
  by (simp add: add_hit_def)

lemma add_hit_nonempty: "hits_nonempty docs \<Longrightarrow> hits_nonempty (add_hit str_float docs p)"
proof -
  assume inv: "hits_nonempty docs"
  obtain sc fid where p: "p = (sc, fid)" by (cases p)
  show ?thesis
  proof (cases "fid > 0")
    case False
    with inv p show ?thesis by (simp add: add_hit_nonpositive)
  next
    case True
    define d where "d = str_int (fid div 10000)"
    define h where "h = (min_diff_cutoff str_float sc (1/100), str_int fid)"
    show ?thesis
    proof (cases "map_of docs d = None")
      case fresh: True
      have "add_hit str_float docs p = docs @ [(d, [h])]"
        using fresh by (simp add: p add_hit_positive [OF True] d_def h_def)
      with inv show ?thesis by (simp add: hits_nonempty_def)
    next
      case present: False
      have res: "add_hit str_float docs p = AList.map_entry d (\<lambda>hits. hits @ [h]) docs"
        using present by (auto simp: p add_hit_positive [OF True] d_def h_def)
      have "snd x \<noteq> []" if "x \<in> set (AList.map_entry d (\<lambda>hits. hits @ [h]) docs)" for x
        using set_map_entry_cases [OF that] inv by (auto simp: hits_nonempty_def list_all_iff)
      then show ?thesis unfolding res hits_nonempty_def list_all_iff by blast
    qed
  qed
qed

lemma foldl_add_hit_nonempty:
  "hits_nonempty docs \<Longrightarrow> hits_nonempty (foldl (add_hit str_float) docs ps)"
  by (induction ps arbitrary: docs) (auto simp: add_hit_nonempty)

lemma collect_docs_nonempty: "hits_nonempty (collect_docs str_float scores0 faiss_ids0)"
  unfolding collect_docs_def by (rule foldl_add_hit_nonempty) (simp add: hits_nonempty_def)

lemma unique_docs_nonempty:
  "hits_nonempty docs \<Longrightarrow> hits_nonempty acc \<Longrightarrow> hits_nonempty (unique_docs phash docs seen acc)"
proof (induction docs arbitrary: seen acc)
  case Nil
  then show ?case by simp
next
  case (Cons entry docs)
  obtain d s where entry: "entry = (d, s)" by (cases entry)
  from Cons.prems entry have s: "s \<noteq> []" and rest: "hits_nonempty docs"
    by (auto simp: hits_nonempty_def)
  have "hits_nonempty (AList.update d (sort_score_ids s) acc)"
    using Cons.prems(2) s by (simp add: hits_nonempty_update sort_score_ids_nonempty)
  with Cons.IH rest Cons.prems(2) show ?case
    by (simp add: entry Let_def)
qed

lemma all_docs_nonempty:
  "hits_nonempty docs \<Longrightarrow> hits_nonempty acc \<Longrightarrow> hits_nonempty (all_docs docs acc)"
proof (induction docs arbitrary: acc)
  case Nil
  then show ?case by simp
next
  case (Cons entry docs)
  obtain d s where entry: "entry = (d, s)" by (cases entry)
  from Cons.prems entry have s: "s \<noteq> []" and rest: "hits_nonempty docs"
    by (auto simp: hits_nonempty_def)
  have "hits_nonempty (AList.update d (sort_score_ids s) acc)"
    using Cons.prems(2) s by (simp add: hits_nonempty_update sort_score_ids_nonempty)
  with Cons.IH rest show ?case
    by (simp add: entry)
qed

lemma aggregate_docs_hits_nonempty:
  "aggregate_docs str_float phash scores faiss_ids uniq = Inr doc_hits \<Longrightarrow> hits_nonempty doc_hits"
  unfolding aggregate_docs_def
  by (auto simp: Let_def hits_nonempty_def [of "[]"] collect_docs_nonempty
        unique_docs_nonempty all_docs_nonempty split: sum.splits if_splits)

lemma format_payload_docs_loop_total:
  "hits_nonempty docs \<Longrightarrow> \<exists>payload. format_payload_docs_loop docs acc = Inr payload"
proof (induction docs arbitrary: acc)
  case Nil
  then show ?case by simp
next
  case (Cons entry docs)
  obtain d s where entry: "entry = (d, s)" by (cases entry)
  from Cons.prems entry obtain x xs where s: "s = x # xs" and rest: "hits_nonempty docs"
    by (cases s) (auto simp: hits_nonempty_def)
  show ?case using Cons.IH [OF rest] by (simp add: entry s)
qed

lemma format_payload_singles_loop_total:
  "hits_nonempty docs \<Longrightarrow> \<exists>payload. format_payload_singles_loop docs acc = Inr payload"
proof (induction docs arbitrary: acc)
  case Nil
  then show ?case by simp
next
  case (Cons entry docs)
  obtain d s where entry: "entry = (d, s)" by (cases entry)
  from Cons.prems entry obtain x xs where s: "s = x # xs" and rest: "hits_nonempty docs"
    by (cases s) (auto simp: hits_nonempty_def)
  show ?case using Cons.IH [OF rest] by (cases x) (simp add: entry s)
qed

text \<open>
  Claim C10.  Every document entry of the dictionary that \<open>aggregate_docs\<close> returns holds
  a non-empty list of (score, id) pairs; so \<open>min\<close> in \<open>format_payload_docs\<close> and
  \<open>score_ids[0]\<close> in \<open>format_payload_singles\<close> never meet an empty list, and both
  formatters return a payload.
\<close>

theorem aggregate_docs_entries_nonempty:
  assumes "aggregate_docs str_float phash scores faiss_ids require_unique_score = Inr doc_hits"
  shows "(\<forall>entry \<in> set doc_hits. snd entry \<noteq> [])
       \<and> (\<exists>payload. format_payload_docs doc_hits = Inr payload)
       \<and> (\<exists>payload. format_payload_singles doc_hits = Inr payload)"
proof -
  have inv: "hits_nonempty doc_hits"
    using assms by (rule aggregate_docs_hits_nonempty)
  have "\<forall>entry \<in> set doc_hits. snd entry \<noteq> []"
    using inv by (simp add: hits_nonempty_def list_all_iff)
  moreover have "\<exists>payload. format_payload_docs doc_hits = Inr payload"
    using format_payload_docs_loop_total [OF inv, of "[]"]
    by (auto simp: format_payload_docs_def)
  moreover have "\<exists>payload. format_payload_singles doc_hits = Inr payload"
    using format_payload_singles_loop_total [OF inv, of "[]"]
    by (auto simp: format_payload_singles_def)
  ultimately show ?thesis by blast
qed

lemma str_int_10001: "str_int 10001 = ''10001''"
  by (simp add: str_int_def str_nat.simps digit_char_def)

lemma str_int_10002: "str_int 10002 = ''10002''"
  by (simp add: str_int_def str_nat.simps digit_char_def)

lemma str_int_20001: "str_int 20001 = ''20001''"
  by (simp add: str_int_def str_nat.simps digit_char_def)

lemma str_int_1: "str_int 1 = ''1''"
  by (simp add: str_int_def str_nat.simps digit_char_def)

lemma str_int_2: "str_int 2 = ''2''"
  by (simp add: str_int_def str_nat.simps digit_char_def)

lemma collect_docs_example:
  "collect_docs str_float_sample [1/2, 0, 1/5] [10001, 10002, -1]
     = [(''1'', [(''0.5'', ''10001''), (''0.01'', ''10002'')])]"
  by (simp add: collect_docs_def add_hit_def Let_def min_diff_cutoff_def str_float_sample_def
        str_int_10001 str_int_10002 str_int_1)

lemma aggregate_docs_example:
  "aggregate_docs str_float_sample (\<lambda>xs. xs) [[1/2, 0, 1/5]] [[10001, 10002, -1]] True
     = Inr [(''1'', [(''0.01'', ''10002''), (''0.5'', ''10001'')])]"
  by (simp add: aggregate_docs_def first_row_def collect_docs_example sort_score_ids_def)

theorem aggregate_docs_entries_nonempty_witness:
  "aggregate_docs str_float_sample (\<lambda>xs. xs) [[1/2, 0, 1/5]] [[10001, 10002, -1]] True
     = Inr [(''1'', [(''0.01'', ''10002''), (''0.5'', ''10001'')])]
   \<and> list_all (\<lambda>entry. snd entry \<noteq> []) [(''1'', [(''0.01'', ''10002''), (''0.5'', ''10001'')])]
   \<and> (\<exists>payload. format_payload_docs
          [(''1'', [(''0.01'', ''10002''), (''0.5'', ''10001'')])] = Inr payload)
   \<and> (\<exists>payload. format_payload_singles
          [(''1'', [(''0.01'', ''10002''), (''0.5'', ''10001'')])] = Inr payload)"
  using aggregate_docs_entries_nonempty [OF aggregate_docs_example] aggregate_docs_example
  by (simp add: list_all_iff)

section \<open>Identifiers in the payload\<close>

lemma ids_grouped_Nil: "ids_grouped []"
  by (simp add: ids_grouped_def)

lemma ids_grouped_update:
  assumes "ids_grouped docs" and "\<forall>pair \<in> set v. \<exists>i>0. snd pair = str_int i \<and> k = str_int (i div 10000)"
  shows "ids_grouped (AList.update k v docs)"
  unfolding ids_grouped_def
proof (intro ballI)
  fix entry pair assume e: "entry \<in> set (AList.update k v docs)" and pr: "pair \<in> set (snd entry)"
  from e set_update_subset [of k v docs] have "entry = (k, v) \<or> entry \<in> set docs" by auto
  then show "\<exists>i>0. snd pair = str_int i \<and> fst entry = str_int (i div 10000)"
    using assms pr by (auto simp: ids_grouped_def)
qed

lemma add_hit_grouped: "ids_grouped docs \<Longrightarrow> ids_grouped (add_hit str_float docs p)"
proof -
  assume inv: "ids_grouped docs"
  obtain sc fid where p: "p = (sc, fid)" by (cases p)
  show ?thesis
  proof (cases "fid > 0")
    case False
    with inv p show ?thesis by (simp add: add_hit_nonpositive)
  next
    case True
    define d where "d = str_int (fid div 10000)"
    define h where "h = (min_diff_cutoff str_float sc (1/100), str_int fid)"
    have h_ok: "\<exists>i>0. snd h = str_int i \<and> d = str_int (i div 10000)"
      using True by (auto simp: h_def d_def)
    show ?thesis
    proof (cases "map_of docs d = None")
      case fresh: True
      have "add_hit str_float docs p = docs @ [(d, [h])]"
        using fresh by (simp add: p add_hit_positive [OF True] d_def h_def)
      with inv h_ok show ?thesis by (auto simp: ids_grouped_def)
    next
      case present: False
      have res: "add_hit str_float docs p = AList.map_entry d (\<lambda>hits. hits @ [h]) docs"
        using present by (auto simp: p add_hit_positive [OF True] d_def h_def)
      show ?thesis unfolding res ids_grouped_def
      proof (intro ballI)
        fix entry pair
        assume e: "entry \<in> set (AList.map_entry d (\<lambda>hits. hits @ [h]) docs)"
          and pr: "pair \<in> set (snd entry)"
        from set_map_entry_cases [OF e]
        consider "entry \<in> set docs" | v where "(d, v) \<in> set docs" "entry = (d, v @ [h])" by blast
        then show "\<exists>i>0. snd pair = str_int i \<and> fst entry = str_int (i div 10000)"
        proof cases
          case 1
          with inv pr show ?thesis by (auto simp: ids_grouped_def)
        next
          case 2
          with pr have "pair \<in> set v \<or> pair = h" by auto
          then show ?thesis using 2 inv h_ok by (fastforce simp: ids_grouped_def)
        qed
      qed
    qed
  qed
qed

lemma collect_docs_grouped: "ids_grouped (collect_docs str_float scores0 faiss_ids0)"
proof -
  have "ids_grouped docs \<Longrightarrow> ids_grouped (foldl (add_hit str_float) docs ps)" for docs ps
    by (induction ps arbitrary: docs) (auto simp: add_hit_grouped)
  then show ?thesis unfolding collect_docs_def by (simp add: ids_grouped_Nil)
qed

lemma set_sort_score_ids: "set (sort_score_ids s) = set s"
  by (simp add: sort_score_ids_def)

lemma unique_docs_grouped:
  "ids_grouped docs \<Longrightarrow> ids_grouped acc \<Longrightarrow> ids_grouped (unique_docs phash docs seen acc)"
proof (induction docs arbitrary: seen acc)
  case Nil
  then show ?case by simp
next
  case (Cons entry docs)
  obtain d s where entry: "entry = (d, s)" by (cases entry)
  from Cons.prems entry have rest: "ids_grouped docs"
    and s: "\<forall>pair \<in> set s. \<exists>i>0. snd pair = str_int i \<and> d = str_int (i div 10000)"
    by (auto simp: ids_grouped_def)
  have "ids_grouped (AList.update d (sort_score_ids s) acc)"
    using Cons.prems(2) s by (intro ids_grouped_update) (simp_all add: set_sort_score_ids)
  with Cons.IH rest Cons.prems(2) show ?case
    by (simp add: entry Let_def)
qed

lemma all_docs_grouped:
  "ids_grouped docs \<Longrightarrow> ids_grouped acc \<Longrightarrow> ids_grouped (all_docs docs acc)"
proof (induction docs arbitrary: acc)
  case Nil
  then show ?case by simp
next
  case (Cons entry docs)
  obtain d s where entry: "entry = (d, s)" by (cases entry)
  from Cons.prems entry have rest: "ids_grouped docs"
    and s: "\<forall>pair \<in> set s. \<exists>i>0. snd pair = str_int i \<and> d = str_int (i div 10000)"
    by (auto simp: ids_grouped_def)
  have "ids_grouped (AList.update d (sort_score_ids s) acc)"
    using Cons.prems(2) s by (intro ids_grouped_update) (simp_all add: set_sort_score_ids)
  with Cons.IH rest show ?case
    by (simp add: entry)
qed

lemma aggregate_docs_grouped:
  "aggregate_docs str_float phash scores faiss_ids uniq = Inr doc_hits \<Longrightarrow> ids_grouped doc_hits"
  unfolding aggregate_docs_def
  by (auto simp: Let_def ids_grouped_Nil collect_docs_grouped
        unique_docs_grouped all_docs_grouped split: sum.splits if_splits)

lemma format_payload_docs_loop_ok:
  "ids_grouped docs \<Longrightarrow> list_all doc_hit_ok acc \<Longrightarrow> format_payload_docs_loop docs acc = Inr payload
    \<Longrightarrow> list_all doc_hit_ok payload"
proof (induction docs arbitrary: acc)
  case Nil
  then show ?case by simp
next
  case (Cons entry docs)
  obtain d s where entry: "entry = (d, s)" by (cases entry)
  from Cons.prems(1) entry have rest: "ids_grouped docs"
    and s: "\<forall>pair \<in> set s. \<exists>i>0. snd pair = str_int i \<and> d = str_int (i div 10000)"
    by (auto simp: ids_grouped_def)
  from Cons.prems(3) entry obtain m where m: "py_min (map fst s) = Inr m"
    and run: "format_payload_docs_loop docs
        (acc @ [DocHit d (map (\<lambda>(diff, fid). (fid, diff)) s) m]) = Inr payload"
    by (auto split: sum.splits)
  have "doc_hit_ok (DocHit d (map (\<lambda>(diff, fid). (fid, diff)) s) m)"
    using s by (fastforce simp: doc_hit_ok_def)
  with Cons.prems(2) have "list_all doc_hit_ok (acc @ [DocHit d (map (\<lambda>(diff, fid). (fid, diff)) s) m])"
    by simp
  from Cons.IH [OF rest this run] show ?case .
qed

lemma format_payload_singles_loop_ok:
  "ids_grouped docs \<Longrightarrow> list_all single_hit_ok acc \<Longrightarrow> format_payload_singles_loop docs acc = Inr payload
    \<Longrightarrow> list_all single_hit_ok payload"
proof (induction docs arbitrary: acc)
  case Nil
  then show ?case by simp
next
  case (Cons entry docs)
  obtain d s where entry: "entry = (d, s)" by (cases entry)
  from Cons.prems(1) entry have rest: "ids_grouped docs"
    and s: "\<forall>pair \<in> set s. \<exists>i>0. snd pair = str_int i \<and> d = str_int (i div 10000)"
    by (auto simp: ids_grouped_def)
  from Cons.prems(3) entry obtain diff fid s' where s': "s = (diff, fid) # s'"
    and run: "format_payload_singles_loop docs (acc @ [SingleHit d diff fid]) = Inr payload"
    by (auto split: list.splits)
  have "single_hit_ok (SingleHit d diff fid)"
    using s s' by (auto simp: single_hit_ok_def)
  with Cons.prems(2) have "list_all single_hit_ok (acc @ [SingleHit d diff fid])"
    by simp
  from Cons.IH [OF rest this run] show ?case .
qed

lemma set_py_slice_to: "set (py_slice_to k xs) \<subseteq> set xs"
  by (auto simp: py_slice_to_def dest: in_set_takeD)

lemma query_corpus_docs_ok:
  assumes "query_corpus str_float phash self query_str k radius start end True = Inr (payload, self')"
  shows "list_all doc_hit_ok payload"
proof -
  from assms obtain scores faiss_ids doc_hits raw where
    a: "aggregate_docs str_float phash scores faiss_ids True = Inr doc_hits"
    and f: "format_payload_docs_loop doc_hits [] = Inr raw"
    and p: "payload = py_slice_to k (sort_key hit_score raw)"
    by (auto simp: query_corpus_def format_payload_docs_def split: sum.splits prod.splits)
  have "list_all doc_hit_ok raw"
    using format_payload_docs_loop_ok [OF aggregate_docs_grouped [OF a] _ f] by simp
  then show ?thesis
    using set_py_slice_to [of k "sort_key hit_score raw"] unfolding p list_all_iff by auto
qed

lemma query_corpus_singles_ok:
  assumes "query_corpus str_float phash self query_str k radius start end False = Inr (payload, self')"
  shows "list_all single_hit_ok payload"
proof -
  from assms obtain scores faiss_ids doc_hits raw where
    a: "aggregate_docs str_float phash scores faiss_ids True = Inr doc_hits"
    and f: "format_payload_singles_loop doc_hits [] = Inr raw"
    and p: "payload = py_slice_to k (sort_key hit_score raw)"
    by (auto simp: query_corpus_def format_payload_singles_def split: sum.splits prod.splits)
  have "list_all single_hit_ok raw"
    using format_payload_singles_loop_ok [OF aggregate_docs_grouped [OF a] _ f] by simp
  then show ?thesis
    using set_py_slice_to [of k "sort_key hit_score raw"] unfolding p list_all_iff by auto
qed

lemma add_hit_api_eq:
  "add_hit_api docs (sc, fid) =
    (if map_of docs (str_int (fid div 10000)) = None
     then docs @ [(str_int (fid div 10000), [(max sc (1/10), fid)])]
     else AList.map_entry (str_int (fid div 10000)) (\<lambda>hits. hits @ [(max sc (1/10), fid)]) docs)"
  by (simp add: add_hit_api_def Let_def map_entry_update_fresh min_diff_cutoff_api_def)

lemma add_hit_api_grouped: "api_grouped docs \<Longrightarrow> api_grouped (add_hit_api docs p)"
proof -
  assume inv: "api_grouped docs"
  obtain sc fid where p: "p = (sc, fid)" by (cases p)
  define d where "d = str_int (fid div 10000)"
  define h where "h = (max sc (1/10), fid)"
  show ?thesis
  proof (cases "map_of docs d = None")
    case True
    then have "add_hit_api docs p = docs @ [(d, [h])]"
      by (simp add: p add_hit_api_eq d_def h_def)
    with inv show ?thesis by (auto simp: api_grouped_def d_def h_def)
  next
    case False
    then have res: "add_hit_api docs p = AList.map_entry d (\<lambda>hits. hits @ [h]) docs"
      by (auto simp: p add_hit_api_eq d_def h_def)
    show ?thesis unfolding res api_grouped_def
    proof (intro ballI)
      fix entry pair
      assume e: "entry \<in> set (AList.map_entry d (\<lambda>hits. hits @ [h]) docs)"
        and pr: "pair \<in> set (snd entry)"
      from set_map_entry_cases [OF e]
      consider "entry \<in> set docs" | v where "(d, v) \<in> set docs" "entry = (d, v @ [h])" by blast
      then show "fst entry = str_int (snd pair div 10000)"
      proof cases
        case 1
        with inv pr show ?thesis by (auto simp: api_grouped_def)
      next
        case 2
        with pr have "pair \<in> set v \<or> pair = h" by auto
        then show ?thesis using 2 inv by (fastforce simp: api_grouped_def d_def h_def)
      qed
    qed
  qed
qed

lemma aggregate_docs_api_grouped:
  assumes "aggregate_docs_api scores faiss_ids = Inr docs"
  shows "api_grouped docs"
proof -
  have "api_grouped ds \<Longrightarrow> api_grouped (foldl add_hit_api ds ps)" for ds ps
    by (induction ps arbitrary: ds) (auto simp: add_hit_api_grouped)
  then show ?thesis
    using assms by (auto simp: aggregate_docs_api_def api_grouped_def [of "[]"] split: sum.splits)
qed

lemma format_payload_loop_ok:
  "api_grouped docs \<Longrightarrow> list_all sent_hit_ok acc \<Longrightarrow> format_payload_loop str_float docs acc = Inr payload
    \<Longrightarrow> list_all sent_hit_ok payload"
proof (induction docs arbitrary: acc)
  case Nil
  then show ?case by simp
next
  case (Cons entry docs)
  obtain d s where entry: "entry = (d, s)" by (cases entry)
  from Cons.prems(1) entry have rest: "api_grouped docs"
    and s: "\<forall>pair \<in> set s. d = str_int (snd pair div 10000)"
    by (auto simp: api_grouped_def)
  from Cons.prems(3) entry obtain n where n: "py_int d = Inr n"
    by (auto split: sum.splits)
  show ?case
  proof (cases "n > 0")
    case False
    with Cons.prems(3) entry n have "format_payload_loop str_float docs acc = Inr payload" by simp
    from Cons.IH [OF rest Cons.prems(2) this] show ?thesis .
  next
    case True
    define new where
      "new = map (\<lambda>(faiss_diff, faiss_id). SentHit (str_float faiss_diff) (str_int faiss_id)) s"
    from True Cons.prems(3) entry n
    have run: "format_payload_loop str_float docs (acc @ new) = Inr payload"
      by (simp add: new_def)
    have "sent_hit_ok r" if "r \<in> set new" for r
    proof -
      from that obtain sc fid where pr: "(sc, fid) \<in> set s" and r: "r = SentHit (str_float sc) (str_int fid)"
        by (auto simp: new_def)
      from s pr have "d = str_int (fid div 10000)" by auto
      with n have "fid div 10000 = n" by (simp add: py_int_str_int)
      with True have "fid > 0" by (cases "fid > 0") (auto simp: div_nonpos_pos_le0 not_less)
      then show ?thesis by (auto simp: sent_hit_ok_def r)
    qed
    with Cons.prems(2) have "list_all sent_hit_ok (acc @ new)" by (auto simp: list_all_iff)
    from Cons.IH [OF rest this run] show ?thesis .
  qed
qed

lemma query_corpus_api_ok:
  assumes "query_corpus_api str_float self_api query_str k = Inr payload"
  shows "list_all sent_hit_ok payload"
proof -
  from assms obtain scores faiss_ids doc_hits raw where
    a: "aggregate_docs_api scores faiss_ids = Inr doc_hits"
    and f: "format_payload_loop str_float doc_hits [] = Inr raw"
    and p: "payload = py_slice_to k (sort_key hit_score raw)"
    by (auto simp: query_corpus_api_def format_payload_def Let_def split: sum.splits prod.splits)
  have "list_all sent_hit_ok raw"
    using format_payload_loop_ok [OF aggregate_docs_api_grouped [OF a] _ f] by simp
  then show ?thesis
    using set_py_slice_to [of k "sort_key hit_score raw"] unfolding p list_all_iff by auto
qed

text \<open>
  Claim C5.  No id of a final payload is \<open>\<le> 0\<close>, and every id is grouped under the
  record whose \<open>doc_id\<close> is the id divided by 10000.  The payload holds the ids as
  strings, so an id of the payload is \<open>str_int i\<close> for a positive \<open>i\<close>, and the
  record's \<open>doc_id\<close> is \<open>str_int (i div 10000)\<close>: with \<open>rerank_by_doc\<close> for
  every entry of \<open>id_score_tups\<close>, without it for the one \<open>sentence_id\<close>.  The
  payload of the older processor (dt\_sim\_api) has records without a \<open>doc_id\<close>; its
  ids are positive too, since \<open>format_payload\<close> drops every document whose number is
  not positive.
\<close>

theorem payload_ids_positive_and_grouped:
  "(query_corpus str_float phash self query_str k radius start end rerank_by_doc = Inr (payload, self')
      \<longrightarrow> (\<forall>r \<in> set payload.
             if rerank_by_doc
             then \<forall>t \<in> set (hit_id_score_tups r).
                    \<exists>i>0. fst t = str_int i \<and> hit_doc_id r = str_int (i div 10000)
             else \<exists>i>0. hit_sentence_id r = str_int i \<and> hit_doc_id r = str_int (i div 10000)))
   \<and> (query_corpus_api str_float self_api query_str k = Inr payload_api
      \<longrightarrow> (\<forall>r \<in> set payload_api. \<exists>i>0. hit_sentence_id r = str_int i))"
proof (intro conjI impI)
  assume q: "query_corpus str_float phash self query_str k radius start end rerank_by_doc = Inr (payload, self')"
  show "\<forall>r \<in> set payload.
             if rerank_by_doc
             then \<forall>t \<in> set (hit_id_score_tups r).
                    \<exists>i>0. fst t = str_int i \<and> hit_doc_id r = str_int (i div 10000)
             else \<exists>i>0. hit_sentence_id r = str_int i \<and> hit_doc_id r = str_int (i div 10000)"
  proof (cases rerank_by_doc)
    case True
    with q have "list_all doc_hit_ok payload" by (auto intro: query_corpus_docs_ok)
    with True show ?thesis by (simp add: list_all_iff doc_hit_ok_def)
  next
    case False
    with q have "list_all single_hit_ok payload" by (auto intro: query_corpus_singles_ok)
    with False show ?thesis by (simp add: list_all_iff single_hit_ok_def)
  qed
next
  assume "query_corpus_api str_float self_api query_str k = Inr payload_api"
  then have "list_all sent_hit_ok payload_api" by (rule query_corpus_api_ok)
  then show "\<forall>r \<in> set payload_api. \<exists>i>0. hit_sentence_id r = str_int i"
    by (simp add: list_all_iff sent_hit_ok_def)
qed

lemma str_int_minus1: "str_int (-1) = ''-1''"
  by (simp add: str_int_def str_nat.simps digit_char_def)

lemma query_corpus_example:
  "query_corpus str_float_sample (\<lambda>xs. xs) (fixed_processor [1/2, 0, 1/5] [10001, 10002, -1])
      ''q'' 5 (13/20) ''0000-00-00'' ''9999-99-99'' True
   = Inr ([DocHit ''1'' [(''10002'', ''0.01''), (''10001'', ''0.5'')] ''0.01''],
          (fixed_processor [1/2, 0, 1/5] [10001, 10002, -1])\<lparr>n_queries := 1\<rparr>)"
  by (simp add: query_corpus_def vectorize_def fixed_processor_def aggregate_docs_example
        format_payload_docs_def py_slice_to_def)

lemma query_corpus_api_example:
  "query_corpus_api str_float_sample (fixed_api_processor [1/2, 1/5] [10001, -1]) ''q'' 5
   = Inr [SentHit ''0.5'' ''10001'']"
  by (simp add: query_corpus_api_def fixed_api_processor_def aggregate_docs_api_def first_row_def
        add_hit_api_def min_diff_cutoff_api_def Let_def str_int_1 str_int_minus1 str_int_10001
        format_payload_def py_int_def is_digit_def parse_digits_def digit_val_def
        str_float_sample_def py_slice_to_def)

theorem payload_ids_positive_and_grouped_witness:
  "query_corpus str_float_sample (\<lambda>xs. xs) (fixed_processor [1/2, 0, 1/5] [10001, 10002, -1])
      ''q'' 5 (13/20) ''0000-00-00'' ''9999-99-99'' True
   = Inr ([DocHit ''1'' [(''10002'', ''0.01''), (''10001'', ''0.5'')] ''0.01''],
          (fixed_processor [1/2, 0, 1/5] [10001, 10002, -1])\<lparr>n_queries := 1\<rparr>)
   \<and> list_all (\<lambda>t. \<exists>i>0. fst t = str_int i \<and> ''1'' = str_int (i div 10000))
        [(''10002'', ''0.01''), (''10001'', ''0.5'')]
   \<and> query_corpus_api str_float_sample (fixed_api_processor [1/2, 1/5] [10001, -1]) ''q'' 5
       = Inr [SentHit ''0.5'' ''10001'']
   \<and> (\<exists>i>0. ''10001'' = str_int i)"
  using payload_ids_positive_and_grouped [THEN conjunct1, rule_format, OF query_corpus_example]
    payload_ids_positive_and_grouped [THEN conjunct2, rule_format, OF query_corpus_api_example]
    query_corpus_example query_corpus_api_example
  by (simp add: list_all_iff)

section \<open>Order and length of the payload\<close>

lemma query_corpus_sorted:
  assumes "query_corpus str_float phash self query_str k radius start end rerank_by_doc = Inr (payload, self')"
  shows "sorted (map hit_score payload) \<and> (0 \<le> k \<longrightarrow> int (length payload) \<le> k)"
proof -
  from assms obtain raw where p: "payload = py_slice_to k (sort_key hit_score raw)"
    by (auto simp: query_corpus_def format_payload_docs_def format_payload_singles_def
          split: sum.splits prod.splits if_splits)
  have "sorted (map hit_score (take n (sort_key hit_score raw)))" for n
    unfolding take_map [symmetric] by (rule sorted_wrt_take) (rule sorted_sort_key)
  then show ?thesis unfolding p by (auto simp: py_slice_to_def)
qed

text \<open>
  The record of a document carries as \<open>score\<close> the least of its score strings, again as
  strings compare: for the distances 10.0 and 9.0 that is \<open>'10.0'\<close>.
\<close>

lemma doc_min_example:
  "format_payload_docs [(''1'', [(''10.0'', ''10002''), (''9.0'', ''10001'')])]
    = Inr [DocHit ''1'' [(''10002'', ''10.0''), (''10001'', ''9.0'')] ''10.0'']"
  by (simp add: format_payload_docs_def)

text \<open>
  Claim C1.  The payload of \<open>query_corpus\<close> has at most \<open>k\<close> records for \<open>k \<ge> 0\<close>
  and is sorted by its \<open>score\<close> strings, compared as strings
  (\<open>query_corpus_sorted\<close>).  The strings render distances, and their order is not the
  order of the distances once one of them reaches 10: when the index handler returns the
  distances 9.0 and 10.0 for the documents 1 and 2, the payload lists document 2, at distance
  10.0, before document 1, at distance 9.0.
\<close>

theorem query_corpus_order_at_distance_ten:
  "query_corpus str_float_sample (\<lambda>xs. xs) (fixed_processor [9, 10] [10001, 20001])
      ''q'' 5 100 ''0000-00-00'' ''9999-99-99'' True
   = Inr ([DocHit ''2'' [(''20001'', ''10.0'')] ''10.0'', DocHit ''1'' [(''10001'', ''9.0'')] ''9.0''],
          (fixed_processor [9, 10] [10001, 20001])\<lparr>n_queries := 1\<rparr>)"
  by (simp add: query_corpus_def vectorize_def fixed_processor_def aggregate_docs_def first_row_def
        collect_docs_def add_hit_def Let_def min_diff_cutoff_def str_float_sample_def
        str_int_10001 str_int_20001 str_int_1 str_int_2 sort_score_ids_def
        format_payload_docs_def py_slice_to_def)

section \<open>The floor of the scores\<close>

lemma has_hit_step:
  assumes "map_of docs d = Some hits" "h \<in> set hits"
  shows "\<exists>hits'. map_of (add_hit str_float docs p) d = Some hits' \<and> h \<in> set hits'"
proof -
  obtain sc fid where p: "p = (sc, fid)" by (cases p)
  show ?thesis
  proof (cases "fid > 0")
    case False
    with assms p show ?thesis by (simp add: add_hit_nonpositive)
  next
    case True
    show ?thesis using assms unfolding p add_hit_positive [OF True]
      by (auto simp: map_of_map_entry)
  qed
qed

lemma add_hit_has_hit:
  assumes "fid > 0"
  shows "\<exists>hits. map_of (add_hit str_float docs (sc, fid)) (str_int (fid div 10000)) = Some hits
      \<and> (str_float (max sc (1/100)), str_int fid) \<in> set hits"
  unfolding add_hit_positive [OF assms]
  by (auto simp: map_of_map_entry min_diff_cutoff_def map_add_def)

lemma foldl_has_hit:
  assumes "\<exists>hits. map_of docs d = Some hits \<and> h \<in> set hits"
  shows "\<exists>hits. map_of (foldl (add_hit str_float) docs ps) d = Some hits \<and> h \<in> set hits"
  using assms
proof (induction ps arbitrary: docs)
  case Nil
  then show ?case by simp
next
  case (Cons p ps)
  from Cons.prems obtain hits where "map_of docs d = Some hits" "h \<in> set hits" by blast
  from has_hit_step [OF this] Cons.IH show ?case by simp
qed

text \<open>
  In dt\_sim, every pair \<open>(score, id)\<close> with \<open>id > 0\<close> is appended to the hit list of
  the document \<open>id div 10000\<close> as \<open>(str(max(score, 0.01)), str(id))\<close>.
\<close>

lemma collect_docs_floor:
  assumes "(sc, fid) \<in> set (zip scores0 faiss_ids0)" and "fid > 0"
  shows "\<exists>hits. map_of (collect_docs str_float scores0 faiss_ids0) (str_int (fid div 10000)) = Some hits
      \<and> (str_float (max sc (1/100)), str_int fid) \<in> set hits"
proof -
  from assms(1) obtain before after where z: "zip scores0 faiss_ids0 = before @ (sc, fid) # after"
    by (auto simp: in_set_conv_decomp)
  show ?thesis
    unfolding collect_docs_def z
    using foldl_has_hit [OF add_hit_has_hit [OF assms(2)]] by simp
qed

text \<open>
  Claim C6.  The pair appended to a document's hit list carries \<open>max(score, 0.01)\<close>.
  That is what \<open>aggregate_docs\<close> of dt\_sim does (\<open>collect_docs_floor\<close>).
  \<open>aggregate_docs\<close> of dt\_sim\_api floors at 0.1 instead: the distance 0.05 of the id
  10001 is stored as 0.1.
\<close>

theorem aggregate_docs_api_floor_at_one_tenth:
  "aggregate_docs_api [[1/20]] [[10001]] = Inr [(''1'', [(1/10, 10001)])]"
  by (simp add: aggregate_docs_api_def first_row_def add_hit_api_def min_diff_cutoff_api_def
      Let_def str_int_1)

section \<open>Searching the shards of a date window\<close>

lemma wait_for_lock_free: "\<not> lock self \<Longrightarrow> wait_for_lock self = Some self"
  by (subst wait_for_lock.simps) simp

lemma run_send_idle:
  "shard_input sh = [] \<Longrightarrow> run (send sh (q, r)) queue = (sh, queue @ [shard_index sh q r])"
  by (simp add: run_def send_def)

lemma answer_pair: "answer q r (name, sh) = shard_index sh q r"
  by (simp add: answer_def)

lemma dispatch_loop_dated:
  assumes "\<forall>entry \<in> set items. re_search_date (fst entry) \<noteq> None \<and> shard_input (snd entry) = []"
  shows "dispatch_loop q r start end items visited queue n =
     Inr (visited @ items, queue @ map (answer q r) (filter (in_window start end) items),
          n + int (length (filter (in_window start end) items)))"
  using assms
proof (induction items arbitrary: visited queue n)
  case Nil
  then show ?case by simp
next
  case (Cons entry items)
  obtain name sh where entry: "entry = (name, sh)" by (cases entry)
  from Cons.prems entry obtain d where d: "re_search_date name = Some d" and idle: "shard_input sh = []"
    by auto
  have rest: "\<forall>entry \<in> set items. re_search_date (fst entry) \<noteq> None \<and> shard_input (snd entry) = []"
    using Cons.prems by simp
  show ?case
  proof (cases "start \<le> d \<and> d \<le> end")
    case True
    then have "in_window start end (name, sh)" using d by (simp add: in_window_def)
    then show ?thesis
      using Cons.IH [OF rest] d idle True
      by (simp add: entry run_send_idle answer_pair)
  next
    case False
    then have "\<not> in_window start end (name, sh)" using d by (simp add: in_window_def)
    then show ?thesis
      using Cons.IH [OF rest] d False
      by (auto simp: entry)
  qed
qed

lemma dispatch_loop_undated:
  assumes "entry \<in> set items" "re_search_date (fst entry) = None"
  shows "\<exists>shards' queue'. dispatch_loop q r start end items visited queue n = Inl (AttributeError, shards', queue')"
  using assms
proof (induction items arbitrary: visited queue n)
  case Nil
  then show ?case by simp
next
  case (Cons e items)
  obtain name sh where e: "e = (name, sh)" by (cases e)
  show ?case
  proof (cases "re_search_date name")
    case None
    then show ?thesis by (simp add: e)
  next
    case (Some d)
    with Cons.prems e have "entry \<in> set items" by auto
    from Cons.IH [OF this Cons.prems(2)] Some show ?thesis
      by (auto simp: e split: prod.splits)
  qed
qed

lemma collect_all:
  "n \<le> int (length queue) \<Longrightarrow>
   collect k n queue D I =
     Some (D @ concat (map (\<lambda>res. py_slice_to k (fst res)) queue),
           I @ concat (map (\<lambda>res. py_slice_to k (snd res)) queue))"
proof (induction queue arbitrary: n D I)
  case Nil
  then show ?case by simp
next
  case (Cons res queue)
  obtain dd ii where res: "res = (dd, ii)" by (cases res)
  from Cons.prems have "n - 1 \<le> int (length queue)" by simp
  from Cons.IH [OF this] show ?case by (simp add: res)
qed

lemma search_dated:
  assumes free: "\<not> lock self" and empty: "results self = []"
    and dated: "\<forall>entry \<in> set (shards self). re_search_date (fst entry) \<noteq> None \<and> shard_input (snd entry) = []"
  shows "search self q k r start end =
     Some (Returned
       (joint_sort
          [concat (map (\<lambda>entry. py_slice_to k (fst (answer q r entry)))
                     (filter (in_window start end) (shards self)))]
          [concat (map (\<lambda>entry. py_slice_to k (snd (answer q r entry)))
                     (filter (in_window start end) (shards self)))])
       self)"
proof -
  let ?W = "filter (in_window start end) (shards self)"
  have d: "dispatch_loop q r start end (shards self) [] [] 0
      = Inr (shards self, map (answer q r) ?W, int (length ?W))"
    using dispatch_loop_dated [OF dated, of q r start "end" "[]" "[]" 0] by simp
  have c: "collect k (int (length ?W)) (map (answer q r) ?W) [] []
      = Some (concat (map (\<lambda>res. py_slice_to k (fst res)) (map (answer q r) ?W)),
              concat (map (\<lambda>res. py_slice_to k (snd res)) (map (answer q r) ?W)))"
    using collect_all [of "int (length ?W)" "map (answer q r) ?W" k "[]" "[]"] by simp
  have s: "self\<lparr>lock := True, shards := shards self, results := [], lock := False\<rparr> = self"
    using free empty by (cases self) simp
  show ?thesis
    unfolding search_def wait_for_lock_free [OF free]
    using d c s empty by (simp add: comp_def)
qed

lemma joint_sort_empty: "joint_sort [[]] [[]] = ([[]], [[]])"
  by (simp add: joint_sort_def)

text \<open>The worked examples.\<close>

lemma replace_a: "py_replace ''.index'' '''' ''2020-01-01_a.index'' = ''2020-01-01_a''"
  by (simp add: py_replace.simps)

lemma replace_b: "py_replace ''.index'' '''' ''2020-01-02_b.index'' = ''2020-01-02_b''"
  by (simp add: py_replace.simps)

lemma replace_c: "py_replace ''.index'' '''' ''shard_a.index'' = ''shard_a''"
  by (simp add: py_replace.simps)

lemma init_two:
  "range_shards_init sample_read_index [''2020-01-01_a.index'', ''2020-01-02_b.index''] 4
     = Inr two_shard_manager"
  by (simp add: range_shards_init_def load_shard_def new_shard_def sample_read_index_def
        replace_a replace_b two_shard_manager_def Let_def)

lemma init_undated:
  "range_shards_init sample_read_index [''shard_a.index''] 4 = Inr undated_manager"
  by (simp add: range_shards_init_def load_shard_def new_shard_def sample_read_index_def
        replace_c undated_manager_def Let_def)

lemma date_a: "re_search_date ''2020-01-01_a'' = Some ''2020-01-01''"
  by (simp add: re_search_date.simps date_at_def is_digit_def is_sep_def)

lemma date_b: "re_search_date ''2020-01-02_b'' = Some ''2020-01-02''"
  by (simp add: re_search_date.simps date_at_def is_digit_def is_sep_def)

lemma date_c: "re_search_date ''shard_a'' = None"
  by (simp add: re_search_date.simps date_at_def)

lemma two_shard_manager_ready:
  "\<not> lock two_shard_manager" "results two_shard_manager = []"
  "\<forall>entry \<in> set (shards two_shard_manager).
      re_search_date (fst entry) \<noteq> None \<and> shard_input (snd entry) = []"
  by (simp_all add: two_shard_manager_def date_a date_b)

lemma window_b:
  "filter (in_window ''2020-01-02'' ''2020-01-02'') (shards two_shard_manager)
    = [(''2020-01-02_b'',
          \<lparr>shard_index = (\<lambda>query radius. ([1/2, 1/10], [20001, 20002])), shard_nprobe = 4,
           shard_input = []\<rparr>)]"
  by (simp add: two_shard_manager_def in_window_def date_a date_b)

lemma window_none:
  "filter (in_window ''2021-01-01'' ''2021-12-31'') (shards two_shard_manager) = []"
  by (simp add: two_shard_manager_def in_window_def date_a date_b)

lemma search_s2_example:
  "search two_shard_manager () 5 (13/20) ''2020-01-02'' ''2020-01-02''
     = Some (Returned ([[1/10, 1/2]], [[20002, 20001]]) two_shard_manager)"
  unfolding search_dated [OF two_shard_manager_ready] window_b
  by (simp add: answer_def py_slice_to_def joint_sort_def)

text \<open>
  In a manager whose lock is free, whose queue is empty and whose shards all have a date in
  their name, the loop of \<open>search\<close> sends the query to the shards whose date \<open>d\<close>
  satisfies \<open>start \<le> d \<le> end\<close> as strings, and to no other: the queue receives one
  answer of each of them, in the order of the shards, and \<open>n_results\<close> is their number.
  The search returns the first \<open>k\<close> entries of each answer, sorted jointly, and leaves
  the manager as it was.  When no shard is in the window nothing is sent and the result is
  empty.
\<close>

lemma search_dated_window:
  assumes "\<not> lock self" and "results self = []"
    and "\<forall>entry \<in> set (shards self).
           re_search_date (fst entry) \<noteq> None \<and> shard_input (snd entry) = []"
  shows "dispatch_loop query_vector radius start end (shards self) [] (results self) 0
      = Inr (shards self,
             map (answer query_vector radius) (filter (in_window start end) (shards self)),
             int (length (filter (in_window start end) (shards self))))
   \<and> search self query_vector k radius start end
      = Some (Returned
          (joint_sort
             [concat (map (\<lambda>entry. py_slice_to k (fst (answer query_vector radius entry)))
                        (filter (in_window start end) (shards self)))]
             [concat (map (\<lambda>entry. py_slice_to k (snd (answer query_vector radius entry)))
                        (filter (in_window start end) (shards self)))])
          self)
   \<and> (filter (in_window start end) (shards self) = []
      \<longrightarrow> search self query_vector k radius start end = Some (Returned ([[]], [[]]) self))"
proof (intro conjI impI)
  show "dispatch_loop query_vector radius start end (shards self) [] (results self) 0
      = Inr (shards self,
             map (answer query_vector radius) (filter (in_window start end) (shards self)),
             int (length (filter (in_window start end) (shards self))))"
    using dispatch_loop_dated [OF assms(3), of query_vector radius start "end" "[]" "[]" 0] assms(2)
    by simp
next
  show "search self query_vector k radius start end
      = Some (Returned
          (joint_sort
             [concat (map (\<lambda>entry. py_slice_to k (fst (answer query_vector radius entry)))
                        (filter (in_window start end) (shards self)))]
             [concat (map (\<lambda>entry. py_slice_to k (snd (answer query_vector radius entry)))
                        (filter (in_window start end) (shards self)))])
          self)"
    by (rule search_dated [OF assms])
next
  assume "filter (in_window start end) (shards self) = []"
  then show "search self query_vector k radius start end = Some (Returned ([[]], [[]]) self)"
    using search_dated [OF assms, of query_vector k radius start "end"]
    by (simp add: joint_sort_empty)
qed

lemma search_dated_window_example:
  "dispatch_loop () (13/20) ''2020-01-02'' ''2020-01-02'' (shards two_shard_manager) []
      (results two_shard_manager) 0
      = Inr (shards two_shard_manager, [([1/2, 1/10], [20001, 20002])], 1)
   \<and> search two_shard_manager () 5 (13/20) ''2020-01-02'' ''2020-01-02''
      = Some (Returned ([[1/10, 1/2]], [[20002, 20001]]) two_shard_manager)
   \<and> search two_shard_manager () 5 (13/20) ''2021-01-01'' ''2021-12-31''
      = Some (Returned ([[]], [[]]) two_shard_manager)"
  using search_dated_window [OF two_shard_manager_ready,
      of "()" "13/20" "''2020-01-02''" "''2020-01-02''" 5]
    search_dated_window [OF two_shard_manager_ready,
      of "()" "13/20" "''2021-01-01''" "''2021-12-31''" 5]
  unfolding window_b window_none
  by (simp add: answer_def py_slice_to_def joint_sort_def)

text \<open>
  Claim C4.  From the answer of a shard the manager keeps \<open>dd[:k]\<close> and
  \<open>ii[:k]\<close>, the first \<open>k\<close> entries in the order of the answer; it sorts only
  afterwards.  A shard that answers with the distances 0.5 and 0.1, in this order, loses its
  nearest neighbour for \<open>k = 1\<close>: the result is the entry at distance 0.5.
\<close>

theorem search_keeps_first_k_of_answer:
  "search two_shard_manager () 1 (13/20) ''2020-01-02'' ''2020-01-02''
     = Some (Returned ([[1/2]], [[20001]]) two_shard_manager)"
  unfolding search_dated [OF two_shard_manager_ready] window_b
  by (simp add: answer_def py_slice_to_def joint_sort_def)

text \<open>
  A shard whose name holds no date makes \<open>re.search(...)\<close> return \<open>None\<close>, and
  \<open>.group()\<close> on it raises AttributeError, whatever the window; the lock stays set.
\<close>

lemma search_undated:
  assumes "\<not> lock self" "entry \<in> set (shards self)" "re_search_date (fst entry) = None"
  shows "\<exists>self'. search self q k r start end = Some (Raised AttributeError self') \<and> lock self'"
proof -
  from dispatch_loop_undated [OF assms(2,3), of q r start "end" "[]" "results self" 0]
  obtain shards' queue' where
    "dispatch_loop q r start end (shards self) [] (results self) 0 = Inl (AttributeError, shards', queue')"
    by blast
  then show ?thesis
    unfolding search_def wait_for_lock_free [OF assms(1)] by simp
qed

text \<open>
  Claim C7.  A query with the default window over a manager that holds one shard, named
  \<open>shard_a\<close>, does not search the shard: it raises AttributeError and leaves the
  lock set.
\<close>

theorem search_default_window_undated_shard:
  "search undated_manager () 5 (13/20) ''0000-00-00'' ''9999-99-99''
     = Some (Raised AttributeError (undated_manager\<lparr>lock := True\<rparr>))"
proof -
  have l: "\<not> lock undated_manager" by (simp add: undated_manager_def)
  have d: "dispatch_loop () (13/20) ''0000-00-00'' ''9999-99-99'' (shards undated_manager) []
      (results undated_manager) 0 = Inl (AttributeError, shards undated_manager, [])"
    by (simp add: undated_manager_def date_c)
  have s: "undated_manager\<lparr>lock := True, shards := shards undated_manager, results := []\<rparr>
     = undated_manager\<lparr>lock := True\<rparr>"
    by (simp add: undated_manager_def)
  show ?thesis
    unfolding search_def wait_for_lock_free [OF l] using d s by simp
qed

lemma init_mixed:
  "range_shards_init sample_read_index [''shard_a.index'', ''2020-01-02_b.index''] 4
     = Inr mixed_manager"
  by (simp add: range_shards_init_def load_shard_def new_shard_def sample_read_index_def
        replace_b replace_c mixed_manager_def Let_def)

lemma dispatch_mixed:
  "dispatch_loop () (13/20) start end (shards mixed_manager) [] (results mixed_manager) 0
     = Inl (AttributeError, shards mixed_manager, [])"
  by (simp add: mixed_manager_def date_c)

text \<open>
  Claim C3.  The search sends the query to the shards whose date is in the window, and
  returns an empty result when none is.  The manager that \<open>RangeShards.__init__\<close>
  builds from \<open>shard_a.index\<close> and \<open>2020-01-02_b.index\<close> holds a shard dated
  2020-01-02.  A query for the window from 2020-01-02 to 2020-01-02 never reaches that
  shard: the loop raises AttributeError at \<open>shard_a\<close>, the queue stays empty and the
  lock stays set.  A query for a window that holds no shard's date raises as well, where
  an empty result is claimed.
\<close>

theorem search_mixed_manager_raises:
  "range_shards_init sample_read_index [''shard_a.index'', ''2020-01-02_b.index''] 4
     = Inr mixed_manager
   \<and> re_search_date ''2020-01-02_b'' = Some ''2020-01-02''
   \<and> search mixed_manager () 5 (13/20) ''2020-01-02'' ''2020-01-02''
     = Some (Raised AttributeError (mixed_manager\<lparr>lock := True\<rparr>))
   \<and> results (mixed_manager\<lparr>lock := True\<rparr>) = []
   \<and> search mixed_manager () 5 (13/20) ''2021-01-01'' ''2021-12-31''
     = Some (Raised AttributeError (mixed_manager\<lparr>lock := True\<rparr>))"
proof -
  have l: "\<not> lock mixed_manager" by (simp add: mixed_manager_def)
  have s: "mixed_manager\<lparr>lock := True, shards := shards mixed_manager, results := []\<rparr>
     = mixed_manager\<lparr>lock := True\<rparr>"
    by (simp add: mixed_manager_def)
  have "search mixed_manager () 5 (13/20) start end
     = Some (Raised AttributeError (mixed_manager\<lparr>lock := True\<rparr>))" for start "end"
    unfolding search_def wait_for_lock_free [OF l] using dispatch_mixed [of start "end"] s by simp
  then show ?thesis
    using init_mixed date_b by (simp add: mixed_manager_def)
qed

section \<open>Adding a shard twice\<close>

text \<open>
  When \<open>add_shard\<close> has returned for a path, a second call for the same path prints
  the warning and leaves the manager exactly as the first call left it: the paths, the
  shards and the shard count are those of the first call.  This holds for
  \<open>RangeShards\<close> and for \<open>DeployShards\<close>.
\<close>

lemma add_shard_returned_twice:
  "(add_shard read_index self new_shard_path = Returned warned self'
      \<longrightarrow> add_shard read_index self' new_shard_path = Returned True self')
   \<and> (deploy_add_shard read_index dself new_shard_path = Returned dwarned dself'
      \<longrightarrow> deploy_add_shard read_index dself' new_shard_path = Returned True dself')"
proof (intro conjI impI)
  assume first: "add_shard read_index self new_shard_path = Returned warned self'"
  define name where "name = py_replace ''.index'' '''' new_shard_path"
  show "add_shard read_index self' new_shard_path = Returned True self'"
  proof (cases "new_shard_path \<in> set (paths_to_shards self) \<or> map_of (shards self) name \<noteq> None")
    case True
    with first have s': "self' = self\<lparr>lock := False\<rparr>"
      by (auto simp: add_shard_def Let_def name_def)
    show ?thesis using True unfolding s' by (auto simp: add_shard_def Let_def name_def)
  next
    case False
    with first obtain self3 where
      l: "load_shard read_index (self\<lparr>lock := True,
            paths_to_shards := paths_to_shards self @ [new_shard_path]\<rparr>) new_shard_path = Inr self3"
      and s': "self' = self3\<lparr>lock := False\<rparr>"
      by (auto simp: add_shard_def Let_def name_def split: sum.splits)
    from l have "new_shard_path \<in> set (paths_to_shards self3)"
      by (auto simp: load_shard_def Let_def split: sum.splits)
    then show ?thesis unfolding s' by (simp add: add_shard_def Let_def)
  qed
next
  assume first: "deploy_add_shard read_index dself new_shard_path = Returned dwarned dself'"
  then have "new_shard_path \<in> set (deploy_paths_to_shards dself')"
    by (auto simp: deploy_add_shard_def Let_def split: if_splits sum.splits)
  then show "deploy_add_shard read_index dself' new_shard_path = Returned True dself'"
    by (simp add: deploy_add_shard_def)
qed

lemma add_shard_example:
  "add_shard sample_read_index two_shard_manager ''shard_a.index''
    = Returned False
        (two_shard_manager
           \<lparr>paths_to_shards := [''2020-01-01_a.index'', ''2020-01-02_b.index'', ''shard_a.index''],
            shards := shards two_shard_manager @
              [(''shard_a'',
                \<lparr>shard_index = (\<lambda>query radius. ([1/5], [30001])), shard_nprobe = 4,
                 shard_input = []\<rparr>)]\<rparr>)"
  by (simp add: add_shard_def Let_def replace_c two_shard_manager_def load_shard_def new_shard_def
        sample_read_index_def)

lemma deploy_add_shard_example:
  "deploy_add_shard sample_read_index
      \<lparr>deploy_paths_to_shards = [], deploy_nprobe = 4, deploy_index = []\<rparr> ''shard_a.index''
    = Returned False
        \<lparr>deploy_paths_to_shards = [''shard_a.index''], deploy_nprobe = 4,
         deploy_index = [(\<lambda>query radius. ([1/5], [30001]), 4)]\<rparr>"
  by (simp add: deploy_add_shard_def Let_def deploy_load_shard_def sample_read_index_def)

lemma add_shard_returned_twice_example:
  "add_shard sample_read_index two_shard_manager ''shard_a.index''
    = Returned False
        (two_shard_manager
           \<lparr>paths_to_shards := [''2020-01-01_a.index'', ''2020-01-02_b.index'', ''shard_a.index''],
            shards := shards two_shard_manager @
              [(''shard_a'',
                \<lparr>shard_index = (\<lambda>query radius. ([1/5], [30001])), shard_nprobe = 4,
                 shard_input = []\<rparr>)]\<rparr>)
   \<and> add_shard sample_read_index
        (two_shard_manager
           \<lparr>paths_to_shards := [''2020-01-01_a.index'', ''2020-01-02_b.index'', ''shard_a.index''],
            shards := shards two_shard_manager @
              [(''shard_a'',
                \<lparr>shard_index = (\<lambda>query radius. ([1/5], [30001])), shard_nprobe = 4,
                 shard_input = []\<rparr>)]\<rparr>) ''shard_a.index''
    = Returned True
        (two_shard_manager
           \<lparr>paths_to_shards := [''2020-01-01_a.index'', ''2020-01-02_b.index'', ''shard_a.index''],
            shards := shards two_shard_manager @
              [(''shard_a'',
                \<lparr>shard_index = (\<lambda>query radius. ([1/5], [30001])), shard_nprobe = 4,
                 shard_input = []\<rparr>)]\<rparr>)
   \<and> deploy_add_shard sample_read_index
        \<lparr>deploy_paths_to_shards = [''shard_a.index''], deploy_nprobe = 4,
         deploy_index = [(\<lambda>query radius. ([1/5], [30001]), 4)]\<rparr> ''shard_a.index''
    = Returned True
        \<lparr>deploy_paths_to_shards = [''shard_a.index''], deploy_nprobe = 4,
         deploy_index = [(\<lambda>query radius. ([1/5], [30001]), 4)]\<rparr>"
  using add_shard_returned_twice [THEN conjunct1, rule_format, OF add_shard_example]
    add_shard_returned_twice [THEN conjunct2, rule_format, OF deploy_add_shard_example]
    add_shard_example
  by simp

text \<open>
  When the index file cannot be read, \<open>RangeShards.add_shard\<close> raises with the path
  already appended and the lock still set; a second call for the path then only warns and
  frees the lock.
\<close>

lemma add_shard_after_failed_load:
  assumes "add_shard read_index self new_shard_path = Raised e self'"
  shows "lock self' \<and> new_shard_path \<in> set (paths_to_shards self')
       \<and> add_shard read_index self' new_shard_path = Returned True (self'\<lparr>lock := False\<rparr>)"
proof -
  from assms have s': "self' = self\<lparr>lock := True,
      paths_to_shards := paths_to_shards self @ [new_shard_path]\<rparr>"
    by (auto simp: add_shard_def Let_def split: if_splits sum.splits)
  show ?thesis unfolding s' by (simp add: add_shard_def Let_def)
qed

text \<open>
  Claim C8.  Calling \<open>add_shard\<close> twice for a path leaves the manager as calling it
  once.  For \<open>broken.index\<close>, a file that faiss cannot read, the first call of
  \<open>RangeShards.add_shard\<close> raises RuntimeError with the path appended and the lock set;
  the second call prints the warning that the shard is already online, although no shard
  was mounted, and frees the lock: the manager after two calls is not the manager after
  one.
\<close>

theorem add_shard_twice_after_failed_load:
  "add_shard sample_read_index two_shard_manager ''broken.index''
     = Raised RuntimeError
         (two_shard_manager
            \<lparr>lock := True,
             paths_to_shards := [''2020-01-01_a.index'', ''2020-01-02_b.index'', ''broken.index'']\<rparr>)
   \<and> add_shard sample_read_index
         (two_shard_manager
            \<lparr>lock := True,
             paths_to_shards := [''2020-01-01_a.index'', ''2020-01-02_b.index'', ''broken.index'']\<rparr>)
         ''broken.index''
     = Returned True
         (two_shard_manager
            \<lparr>lock := False,
             paths_to_shards := [''2020-01-01_a.index'', ''2020-01-02_b.index'', ''broken.index'']\<rparr>)"
proof -
  have r: "py_replace ''.index'' '''' ''broken.index'' = ''broken''"
    by (simp add: py_replace.simps)
  have first: "add_shard sample_read_index two_shard_manager ''broken.index''
     = Raised RuntimeError
         (two_shard_manager
            \<lparr>lock := True,
             paths_to_shards := [''2020-01-01_a.index'', ''2020-01-02_b.index'', ''broken.index'']\<rparr>)"
    by (simp add: add_shard_def Let_def r two_shard_manager_def load_shard_def new_shard_def
          sample_read_index_def)
  from add_shard_after_failed_load [OF first] first show ?thesis by simp
qed

section \<open>The state of a manager between two calls\<close>

text \<open>
  \<open>RangeShards.__init__\<close> and every \<open>add_shard\<close> that returns leave the manager
  idle, and a search that returns leaves an idle manager as it was.
\<close>

lemma load_shard_pipes:
  assumes "load_shard read_index self shard_path = Inr self'"
    and "list_all (\<lambda>entry. shard_input (snd entry) = []) (shards self)"
  shows "list_all (\<lambda>entry. shard_input (snd entry) = []) (shards self')
       \<and> lock self' = lock self \<and> results self' = results self
       \<and> paths_to_shards self' = paths_to_shards self"
proof -
  from assms(1) obtain sh where n: "new_shard read_index shard_path (nprobe self) = Inr sh"
    and s': "self' = self\<lparr>shards := AList.update (py_replace ''.index'' '''' shard_path) sh (shards self)\<rparr>"
    by (auto simp: load_shard_def Let_def split: sum.splits)
  from n have "shard_input sh = []"
    by (auto simp: new_shard_def split: option.splits)
  then show ?thesis
    using assms(2) set_update_subset [of "py_replace ''.index'' '''' shard_path" sh "shards self"]
    unfolding s' list_all_iff by auto
qed

lemma load_shards_pipes:
  assumes "load_shards read_index self index_paths = Inr self'"
    and "list_all (\<lambda>entry. shard_input (snd entry) = []) (shards self)"
  shows "list_all (\<lambda>entry. shard_input (snd entry) = []) (shards self')
       \<and> lock self' = lock self \<and> results self' = results self"
  using assms
proof (induction index_paths arbitrary: self)
  case Nil
  then show ?case by simp
next
  case (Cons shard_path index_paths)
  from Cons.prems(1) obtain self1 where l: "load_shard read_index self shard_path = Inr self1"
    and r: "load_shards read_index self1 index_paths = Inr self'"
    by (auto split: sum.splits)
  from load_shard_pipes [OF l Cons.prems(2)] Cons.IH [OF r] show ?case by simp
qed

lemma range_shards_init_idle:
  "range_shards_init read_index index_paths nprobe0 = Inr self \<Longrightarrow> idle self"
proof -
  assume "range_shards_init read_index index_paths nprobe0 = Inr self"
  then obtain self0 where
    l: "load_shards read_index
          \<lparr>paths_to_shards = index_paths, nprobe = nprobe0, lock = False, results = [],
           shards = [], n_shards = 0\<rparr> index_paths = Inr self0"
    and s: "self = self0\<lparr>n_shards := length (shards self0)\<rparr>"
    by (auto simp: range_shards_init_def split: sum.splits)
  from load_shards_pipes [OF l] show ?thesis by (simp add: s idle_def)
qed

lemma add_shard_idle:
  assumes "add_shard read_index self new_shard_path = Returned warned self'"
    and "results self = []" and "list_all (\<lambda>entry. shard_input (snd entry) = []) (shards self)"
  shows "idle self'"
proof (cases "warned")
  case True
  with assms have "self' = self\<lparr>lock := False\<rparr>"
    by (auto simp: add_shard_def Let_def split: if_splits sum.splits)
  with assms(2,3) show ?thesis by (simp add: idle_def)
next
  case False
  with assms(1) obtain self3 where
    l: "load_shard read_index (self\<lparr>lock := True,
          paths_to_shards := paths_to_shards self @ [new_shard_path]\<rparr>) new_shard_path = Inr self3"
    and s': "self' = self3\<lparr>lock := False\<rparr>"
    by (auto simp: add_shard_def Let_def split: if_splits sum.splits)
  from load_shard_pipes [OF l] assms(2,3) show ?thesis by (simp add: s' idle_def)
qed

lemma search_idle:
  assumes "idle self" and "search self q k r start end = Some (Returned res self')"
    and "list_all (\<lambda>entry. re_search_date (fst entry) \<noteq> None) (shards self)"
  shows "self' = self"
proof -
  from assms(1,3) have h: "\<not> lock self" "results self = []"
    "\<forall>entry \<in> set (shards self). re_search_date (fst entry) \<noteq> None \<and> shard_input (snd entry) = []"
    by (auto simp: idle_def list_all_iff)
  from search_dated [OF h, of q k r start "end"] assms(2) show ?thesis by simp
qed

section \<open>Merging sub-indexes\<close>





lemma merge_from_returns:
  assumes "\<forall>s \<in> set sources. il_nlist s = nl \<and> il_code_size s = cs"
  shows "\<exists>merged n. merge_from (OnDiskInvertedLists nl cs) sources = Inr (merged, n)"
  using assms by (auto simp: merge_from_def OnDiskInvertedLists_def il_nlist_def list_ex_iff)


lemma read_invlists_returns:
  assumes "list_all (holds_index fs) paths"
  shows "\<exists>ivfs. read_invlists fs paths = Inr ivfs
       \<and> ivfs = map (\<lambda>p. case fs p of Some (IndexFile index) \<Rightarrow> invlists index) paths"
  using assms
proof (induction paths)
  case Nil
  then show ?case by simp
next
  case (Cons p paths)
  from Cons.prems obtain index where f: "fs p = Some (IndexFile index)"
    by (auto simp: holds_index_def split: option.splits disk_file.splits)
  from Cons.IH Cons.prems f show ?case
    by (auto simp: faiss_read_index_def)
qed

text \<open>
  The merge returns when every path holds an index file with the base index's number of
  lists and code size, and the base index is trained and empty.
\<close>

lemma merge_IVFs_returns:
  assumes "list_all (\<lambda>p. case fs p of
                Some (IndexFile index) \<Rightarrow> nlist index = nlist base \<and> code_size index = code_size base
              | _ \<Rightarrow> False)
            (if ivfindex_paths = [] then map fst (subindex_path_totals self) else ivfindex_paths)"
    and "load_base_idx fs self = Inr base"
  shows "\<exists>n fs'. merge_IVFs fs self index_path ivfdata_path ivfindex_paths = Returned n fs'"
proof -
  define paths where
    "paths = (if ivfindex_paths = [] then map fst (subindex_path_totals self) else ivfindex_paths)"
  have h: "list_all (holds_index fs) paths"
    using assms(1) unfolding paths_def [symmetric] list_all_iff
    by (auto simp: holds_index_def split: option.splits disk_file.splits)
  from read_invlists_returns [OF h] obtain ivfs where
    r: "read_invlists fs paths = Inr ivfs"
    and ivfs: "ivfs = map (\<lambda>p. case fs p of Some (IndexFile index) \<Rightarrow> invlists index) paths"
    by blast
  have "\<forall>s \<in> set ivfs. il_nlist s = nlist base \<and> il_code_size s = code_size base"
    using assms(1) unfolding paths_def [symmetric] list_all_iff ivfs
    by (auto simp: nlist_def code_size_def split: option.splits disk_file.splits)
  from merge_from_returns [OF this] obtain merged n where
    "merge_from (OnDiskInvertedLists (nlist base) (code_size base)) ivfs = Inr (merged, n)"
    by blast
  with r assms(2) show ?thesis
    unfolding merge_IVFs_def paths_def [symmetric] by (simp add: Let_def)
qed



lemma sample_file_entries:
  "file_entries sample_files ''a.index'' = {#(11, 10001)#}"
  "file_entries sample_files ''b.index'' = {#(12, 20001), (13, 20002)#}"
  by (simp_all add: file_entries_def sample_files_def)



section \<open>Refusing to write a sub-index\<close>

lemma isfile_samples:
  "isfile sample_files ''a.index''" "isfile sample_files ''notes.txt''"
  "\<not> isfile sample_files ''new.idx''"
  by (simp_all add: isfile_def sample_files_def)

lemma endswith_samples:
  "endswith ''a.index'' ''.index''" "\<not> endswith ''notes.txt'' ''.index''"
  "\<not> endswith ''new.idx'' ''.index''"
  by (simp_all add: endswith_def)

text \<open>
  With a free path that ends in \<open>.index\<close> the sub-index is written and entered in the
  catalogue.
\<close>

lemma generate_subindex_example:
  "generate_subindex (\<lambda>v. 0) (\<lambda>v. v) sample_files sample_builder ''c.index'' [7::nat] [10003]
     = Returned []
        (sample_builder\<lparr>subindex_path_totals := [(''c.index'', 1)]\<rparr>,
         sample_files(''c.index'' \<mapsto>
           IndexFile \<lparr>is_trained = True, ntotal = 1,
             invlists = \<lparr>il_code_size = 8, il_lists = [[(7, 10003)], []]\<rparr>\<rparr>))"
  by (simp add: generate_subindex_def index_path_clear_def isfile_def endswith_def
        load_base_idx_def faiss_read_index_def sample_builder_def index_embs_and_ids_def
        add_with_ids_def sample_files_def)

text \<open>
  Claim C9.  \<open>generate_subindex\<close> does not raise when it refuses a path:
  \<open>index_path_clear\<close> prints the reason and \<open>generate_subindex\<close> returns.  For an
  existing file whose name ends in \<open>.index\<close> the reason is "Index already exists"; for
  a name that does not end in \<open>.index\<close> it is "Invalid index filename", whether the file
  exists or not.  In both cases nothing is written and the catalogue is unchanged.
\<close>

theorem generate_subindex_refuses:
  "(isfile fs subindex_path \<and> endswith subindex_path ''.index''
      \<longrightarrow> generate_subindex quantize encode fs self subindex_path embeddings faiss_ids
           = Returned [IndexAlreadyExists subindex_path] (self, fs))
   \<and> (\<not> endswith subindex_path ''.index''
      \<longrightarrow> generate_subindex quantize encode fs self subindex_path embeddings faiss_ids
           = Returned [InvalidIndexFilename subindex_path] (self, fs))"
  by (simp add: generate_subindex_def index_path_clear_def)

theorem generate_subindex_refuses_witness:
  "generate_subindex (\<lambda>v. 0) (\<lambda>v. v) sample_files sample_builder ''a.index'' [7::nat] [10003]
     = Returned [IndexAlreadyExists ''a.index''] (sample_builder, sample_files)
   \<and> generate_subindex (\<lambda>v. 0) (\<lambda>v. v) sample_files sample_builder ''new.idx'' [7::nat] [10003]
     = Returned [InvalidIndexFilename ''new.idx''] (sample_builder, sample_files)"
  using generate_subindex_refuses [of sample_files "''a.index''" "\<lambda>v. 0" "\<lambda>v. v" sample_builder "[7::nat]" "[10003]"]
    generate_subindex_refuses [of sample_files "''new.idx''" "\<lambda>v. 0" "\<lambda>v. v" sample_builder "[7::nat]" "[10003]"]
    isfile_samples endswith_samples
  by simp

text \<open>
  An existing file whose name does not end in \<open>.index\<close> is refused as an invalid
  filename, not as an existing index.
\<close>

theorem generate_subindex_existing_other_suffix:
  "isfile sample_files ''notes.txt''
   \<and> generate_subindex (\<lambda>v. 0) (\<lambda>v. v) sample_files sample_builder ''notes.txt'' [7::nat] [10003]
     = Returned [InvalidIndexFilename ''notes.txt''] (sample_builder, sample_files)
   \<and> generate_subindex (\<lambda>v. 0) (\<lambda>v. v) sample_files sample_builder ''notes.txt'' [7::nat] [10003]
     \<noteq> Returned [IndexAlreadyExists ''notes.txt''] (sample_builder, sample_files)"
  by (simp add: generate_subindex_def index_path_clear_def isfile_samples endswith_samples)

end
